theory Spec2Isabelle
  imports Main "HOL-Library.Log_Nat" "HOL-Library.Word"
begin

section \<open>Python values used by \<^verbatim>\<open>tools/generate_sprites.py\<close>\<close>

text \<open>
  The exceptions the modelled code can raise: \<^verbatim>\<open>int()\<close> of an infinity and the
  conversion of a too large \<^verbatim>\<open>int\<close> to \<^verbatim>\<open>float\<close> raise OverflowError,
  \<^verbatim>\<open>int()\<close> of a NaN and a negative image size raise ValueError, a pixel
  access outside the image raises IndexError, a missing dictionary key raises KeyError.
\<close>

datatype py_error = OverflowError | ValueError | IndexError | KeyError

subsection \<open>Floats: IEEE 754 binary64, round to nearest, ties to even\<close>

text \<open>
  A finite float is modelled by the rational number it denotes. The sign of a zero is
  not kept: the code never divides and never prints a float, so nothing observes it.
\<close>

datatype pyfloat = Finite rat | PosInf | NegInf | NaN

text \<open>\<open>ilog2 x\<close> is the binary exponent of a non-zero \<open>x\<close>: \<open>2^e \<le> |x| < 2^(e+1)\<close>.\<close>

definition ilog2 :: "rat \<Rightarrow> int" where
  "ilog2 x =
     (if 1 \<le> \<bar>x\<bar> then bitlen \<lfloor>\<bar>x\<bar>\<rfloor> - 1
      else - bitlen (\<lceil>1 / \<bar>x\<bar>\<rceil> - 1))"

text \<open>
  The exponent of the unit in the last place: 53 significant bits, and the subnormal
  range below \<open>2^-1022\<close> shares the spacing \<open>2^-1074\<close>.
\<close>

definition ulp_exp :: "rat \<Rightarrow> int" where
  "ulp_exp x = max (ilog2 x) (- 1022) - 52"

definition round_even :: "rat \<Rightarrow> int" where
  "round_even q =
     (let n = \<lfloor>q\<rfloor>; d = q - of_int n
      in if d < 1 / 2 then n
         else if 1 / 2 < d then n + 1
         else if even n then n else n + 1)"

text \<open>The nearest float with an unbounded exponent range.\<close>

definition nearest :: "rat \<Rightarrow> rat" where
  "nearest x =
     (if x = 0 then 0
      else of_int (round_even (x / 2 powi ulp_exp x)) * 2 powi ulp_exp x)"

text \<open>Rounding a real result to a float: it overflows to an infinity from \<open>2^1024\<close> on.\<close>

definition fl :: "rat \<Rightarrow> pyfloat" where
  "fl x =
     (let y = nearest x
      in if 2 powi 1024 \<le> y then PosInf
         else if y \<le> - (2 powi 1024) then NegInf
         else Finite y)"

fun fneg :: "pyfloat \<Rightarrow> pyfloat" where
  "fneg (Finite a) = Finite (- a)"
| "fneg PosInf = NegInf"
| "fneg NegInf = PosInf"
| "fneg NaN = NaN"

fun fadd :: "pyfloat \<Rightarrow> pyfloat \<Rightarrow> pyfloat" where
  "fadd (Finite a) (Finite b) = fl (a + b)"
| "fadd NaN _ = NaN"
| "fadd _ NaN = NaN"
| "fadd PosInf NegInf = NaN"
| "fadd NegInf PosInf = NaN"
| "fadd PosInf _ = PosInf"
| "fadd _ PosInf = PosInf"
| "fadd NegInf _ = NegInf"
| "fadd _ NegInf = NegInf"

definition fsub :: "pyfloat \<Rightarrow> pyfloat \<Rightarrow> pyfloat" where
  "fsub a b = fadd a (fneg b)"

text \<open>The product of an infinity and a finite float: NaN at zero, else the sign rule.\<close>

definition inf_times :: "bool \<Rightarrow> rat \<Rightarrow> pyfloat" where
  "inf_times positive b =
     (if b = 0 then NaN else if (0 < b) = positive then PosInf else NegInf)"

fun fmul :: "pyfloat \<Rightarrow> pyfloat \<Rightarrow> pyfloat" where
  "fmul (Finite a) (Finite b) = fl (a * b)"
| "fmul NaN _ = NaN"
| "fmul _ NaN = NaN"
| "fmul PosInf (Finite b) = inf_times True b"
| "fmul NegInf (Finite b) = inf_times False b"
| "fmul (Finite a) PosInf = inf_times True a"
| "fmul (Finite a) NegInf = inf_times False a"
| "fmul PosInf PosInf = PosInf"
| "fmul NegInf NegInf = PosInf"
| "fmul PosInf NegInf = NegInf"
| "fmul NegInf PosInf = NegInf"

text \<open>
  \<^verbatim>\<open>float(n)\<close> for an \<^verbatim>\<open>int\<close>, as the mixed operators \<^verbatim>\<open>int * float\<close> and
  \<^verbatim>\<open>int - float\<close> apply it to their integer operand: correctly rounded, OverflowError
  when the integer is beyond the floats.
\<close>

definition float_of_int :: "int \<Rightarrow> py_error + pyfloat" where
  "float_of_int n =
     (case fl (of_int n) of
        Finite y \<Rightarrow> Inr (Finite y)
      | _ \<Rightarrow> Inl OverflowError)"

text \<open>\<^verbatim>\<open>int(x)\<close> for a float: truncation toward zero.\<close>

fun int_of_float :: "pyfloat \<Rightarrow> py_error + int" where
  "int_of_float (Finite a) = Inr (if 0 \<le> a then \<lfloor>a\<rfloor> else \<lceil>a\<rceil>)"
| "int_of_float PosInf = Inl OverflowError"
| "int_of_float NegInf = Inl OverflowError"
| "int_of_float NaN = Inl ValueError"

text \<open>The float literals of the source.\<close>

definition lit_0_4 :: pyfloat where
  "lit_0_4 = fl (4 / 10)"

definition lit_0_35 :: pyfloat where
  "lit_0_35 = fl (35 / 100)"


subsection \<open>Results that may raise\<close>

definition and_then :: "py_error + 'a \<Rightarrow> ('a \<Rightarrow> py_error + 'b) \<Rightarrow> py_error + 'b" where
  "and_then m f = (case m of Inl e \<Rightarrow> Inl e | Inr v \<Rightarrow> f v)"

text \<open>The mixed operators \<^verbatim>\<open>int - float\<close> and \<^verbatim>\<open>int * float\<close>.\<close>

definition int_sub_float :: "int \<Rightarrow> pyfloat \<Rightarrow> py_error + pyfloat" where
  "int_sub_float n x = and_then (float_of_int n) (\<lambda>nf. Inr (fsub nf x))"

definition int_mul_float :: "int \<Rightarrow> pyfloat \<Rightarrow> py_error + pyfloat" where
  "int_mul_float n x = and_then (float_of_int n) (\<lambda>nf. Inr (fmul nf x))"

section \<open>The canvas\<close>

text \<open>
  An RGBA image of the raster library: its size and its rows of pixels, each pixel four
  8-bit channels. A well-formed image has \<open>height\<close> rows of \<open>width\<close> pixels.
\<close>

type_synonym rgba = "8 word \<times> 8 word \<times> 8 word \<times> 8 word"

record canvas =
  width :: nat
  height :: nat
  rows :: "rgba list list"

definition wf_canvas :: "canvas \<Rightarrow> bool" where
  "wf_canvas c \<longleftrightarrow>
     length (rows c) = height c \<and> list_all (\<lambda>row. length row = width c) (rows c)"

definition pixel_at :: "canvas \<Rightarrow> nat \<Rightarrow> nat \<Rightarrow> rgba" where
  "pixel_at c x y = rows c ! y ! x"

text \<open>
  \<^verbatim>\<open>Image.new("RGBA", (w, h), fill)\<close>: the library refuses a negative size with
  ValueError.
\<close>

definition new_image :: "int \<Rightarrow> int \<Rightarrow> rgba \<Rightarrow> py_error + canvas" where
  "new_image w h fill =
     (if w < 0 \<or> h < 0 then Inl ValueError
      else Inr \<lparr>width = nat w, height = nat h,
                rows = replicate (nat h) (replicate (nat w) fill)\<rparr>)"

text \<open>
  The pixel access object of \<^verbatim>\<open>result.load()\<close>, at the non-negative indices the loops
  of the source produce: \<^verbatim>\<open>pixels[x, y]\<close> reads the four channels as integers,
  \<^verbatim>\<open>pixels[x, y] = (r, g, b, a)\<close> stores them, saturated to 8 bits by the library.
  Outside the image both raise IndexError.
\<close>

definition getpixel :: "canvas \<Rightarrow> nat \<Rightarrow> nat \<Rightarrow> py_error + int \<times> int \<times> int \<times> int" where
  "getpixel c x y =
     (if x < width c \<and> y < height c
      then (case pixel_at c x y of (r, g, b, a) \<Rightarrow> Inr (uint r, uint g, uint b, uint a))
      else Inl IndexError)"

definition clip8 :: "int \<Rightarrow> 8 word" where
  "clip8 v = word_of_int (max 0 (min 255 v))"

definition putpixel :: "canvas \<Rightarrow> nat \<Rightarrow> nat \<Rightarrow> int \<times> int \<times> int \<times> int \<Rightarrow> py_error + canvas" where
  "putpixel c x y v =
     (if x < width c \<and> y < height c
      then (case v of (r, g, b, a) \<Rightarrow>
              Inr (c\<lparr>rows := (rows c)[y := (rows c ! y)[x := (clip8 r, clip8 g, clip8 b, clip8 a)]]\<rparr>))
      else Inl IndexError)"

section \<open>The tint transform\<close>

text \<open>
  One channel of the blend, source lines 387 to 389:
  \<^verbatim>\<open>int(r * (1 - intensity) + faction_color[0] * intensity)\<close>,
  every operation a float operation of its own, rounded.
\<close>

definition blend_channel :: "int \<Rightarrow> int \<Rightarrow> pyfloat \<Rightarrow> py_error + int" where
  "blend_channel ch tc intensity =
     and_then (int_sub_float 1 intensity) (\<lambda>w.
     and_then (int_mul_float ch w) (\<lambda>a.
     and_then (int_mul_float tc intensity) (\<lambda>b.
       int_of_float (fadd a b))))"

text \<open>The tuple that line 390 writes for a pixel with \<open>a > 0\<close>.\<close>

definition blend_pixel :: "int \<times> int \<times> int \<Rightarrow> pyfloat \<Rightarrow> int \<times> int \<times> int \<times> int
    \<Rightarrow> py_error + int \<times> int \<times> int \<times> int" where
  "blend_pixel faction_color intensity p =
     (case p of (r, g, b, a) \<Rightarrow>
      case faction_color of (c0, c1, c2) \<Rightarrow>
        and_then (blend_channel r c0 intensity) (\<lambda>nr.
        and_then (blend_channel g c1 intensity) (\<lambda>ng.
        and_then (blend_channel b c2 intensity) (\<lambda>nb.
          Inr (nr, ng, nb, a)))))"

text \<open>The loop body, lines 384 to 390, on the pixels of \<open>result\<close>.\<close>

definition tint_pixel :: "int \<times> int \<times> int \<Rightarrow> pyfloat \<Rightarrow> nat \<Rightarrow> nat \<Rightarrow> canvas
    \<Rightarrow> py_error + canvas" where
  "tint_pixel faction_color intensity x y pixels =
     and_then (getpixel pixels x y) (\<lambda>(r, g, b, a).
       if 0 < a
       then and_then (blend_pixel faction_color intensity (r, g, b, a)) (putpixel pixels x y)
       else Inr pixels)"

text \<open>
  The pixel that one pass of the loop body leaves in place of \<open>p\<close> when it raises
  nothing.
\<close>

definition tint_rgba :: "int \<times> int \<times> int \<Rightarrow> pyfloat \<Rightarrow> rgba \<Rightarrow> rgba" where
  "tint_rgba faction_color intensity p =
     (case p of (r, g, b, a) \<Rightarrow>
        if 0 < uint a
        then (case blend_pixel faction_color intensity (uint r, uint g, uint b, uint a) of
                Inr (nr, ng, nb, na) \<Rightarrow> (clip8 nr, clip8 ng, clip8 nb, clip8 na)
              | Inl e \<Rightarrow> p)
        else p)"

text \<open>A colour of the data model: every channel within 0 to 255.\<close>

definition rgb_ok :: "int \<times> int \<times> int \<Rightarrow> bool" where
  "rgb_ok c = (case c of (c0, c1, c2) \<Rightarrow>
     0 \<le> c0 \<and> c0 \<le> 255 \<and> 0 \<le> c1 \<and> c1 \<le> 255 \<and> 0 \<le> c2 \<and> c2 \<le> 255)"

text \<open>
  The two loops. An exception leaves the loops at once; the pixels written so far stay
  written, so a loop returns the pixels together with the exception, if any.
\<close>

fun tint_xs :: "int \<times> int \<times> int \<Rightarrow> pyfloat \<Rightarrow> nat \<Rightarrow> nat list \<Rightarrow> canvas
    \<Rightarrow> py_error option \<times> canvas" where
  "tint_xs faction_color intensity y [] pixels = (None, pixels)"
| "tint_xs faction_color intensity y (x # xs) pixels =
     (case tint_pixel faction_color intensity x y pixels of
        Inl e \<Rightarrow> (Some e, pixels)
      | Inr pixels' \<Rightarrow> tint_xs faction_color intensity y xs pixels')"

fun tint_ys :: "int \<times> int \<times> int \<Rightarrow> pyfloat \<Rightarrow> nat list \<Rightarrow> canvas
    \<Rightarrow> py_error option \<times> canvas" where
  "tint_ys faction_color intensity [] pixels = (None, pixels)"
| "tint_ys faction_color intensity (y # ys) pixels =
     (case tint_xs faction_color intensity y [0..<width pixels] pixels of
        (Some e, pixels') \<Rightarrow> (Some e, pixels')
      | (None, pixels') \<Rightarrow> tint_ys faction_color intensity ys pixels')"

subsection \<open>Image objects\<close>

text \<open>
  Images are objects: a variable holds a reference, and \<^verbatim>\<open>img.copy()\<close> makes a new
  object. The store maps the references below \<open>next_ref\<close> to their images.
\<close>

record store =
  objs :: "nat \<Rightarrow> canvas"
  next_ref :: nat

definition image_copy :: "store \<Rightarrow> nat \<Rightarrow> nat \<times> store" where
  "image_copy s img =
     (next_ref s, s\<lparr>objs := (objs s)(next_ref s := objs s img), next_ref := Suc (next_ref s)\<rparr>)"

text \<open>
  \<^verbatim>\<open>apply_faction_tint(img, faction_color, intensity)\<close>, lines 377 to 392: the
  outcome (the reference of \<open>result\<close>, or the exception) and the store afterwards.
\<close>

definition apply_faction_tint :: "store \<Rightarrow> nat \<Rightarrow> int \<times> int \<times> int \<Rightarrow> pyfloat
    \<Rightarrow> (py_error + nat) \<times> store" where
  "apply_faction_tint s img faction_color intensity =
     (case image_copy s img of (result, s1) \<Rightarrow>
      case tint_ys faction_color intensity [0..<height (objs s1 result)] (objs s1 result) of
        (err, pixels) \<Rightarrow>
          ((case err of Some e \<Rightarrow> Inl e | None \<Rightarrow> Inr result),
           s1\<lparr>objs := (objs s1)(result := pixels)\<rparr>))"

text \<open>The call without the third argument takes the default of line 377.\<close>

definition apply_faction_tint_default :: "store \<Rightarrow> nat \<Rightarrow> int \<times> int \<times> int
    \<Rightarrow> (py_error + nat) \<times> store" where
  "apply_faction_tint_default s img faction_color =
     apply_faction_tint s img faction_color lit_0_4"


text \<open>
  The contract's formula \<^verbatim>\<open>channel*(1-intensity) + target_channel*intensity\<close>, in float
  arithmetic; the contract truncates it to an integer.
\<close>

definition blend_formula :: "int \<Rightarrow> int \<Rightarrow> pyfloat \<Rightarrow> pyfloat" where
  "blend_formula channel target_channel intensity =
     fadd (fmul (Finite (of_int channel)) (fsub (Finite 1) intensity))
          (fmul (Finite (of_int target_channel)) intensity)"

text \<open>
  A store with one image, two pixels wide and one high: a grey opaque pixel, as the
  infantry generator paints the head, and a transparent one.
\<close>

definition sample_image :: canvas where
  "sample_image = \<lparr>width = 2, height = 1, rows = [[(200, 200, 200, 255), (0, 0, 0, 0)]]\<rparr>"

definition sample_store :: store where
  "sample_store = \<lparr>objs = (\<lambda>_. sample_image), next_ref = 1\<rparr>"

section \<open>The shape generators\<close>

text \<open>
  The drawing primitives belong to the raster library, not to this program: the
  generators take them as a parameter. A primitive gets its coordinates and fill colour
  and maps the image before the call to the image after it.
  The parameter \<^verbatim>\<open>size\<close> of the source is written \<open>sz\<close>.
  \<^verbatim>\<open>draw = ImageDraw.Draw(img)\<close> draws into \<open>img\<close> itself, so a generator is the list
  of its \<^verbatim>\<open>draw\<close> calls, applied in order to the new image.
\<close>

type_synonym box = "int \<times> int \<times> int \<times> int"

record draw_lib =
  rectangle :: "box \<Rightarrow> rgba \<Rightarrow> canvas \<Rightarrow> canvas"
  ellipse :: "box \<Rightarrow> rgba \<Rightarrow> canvas \<Rightarrow> canvas"
  polygon :: "(int \<times> int) list \<Rightarrow> rgba \<Rightarrow> canvas \<Rightarrow> canvas"
  line :: "box \<Rightarrow> rgba \<Rightarrow> int \<Rightarrow> canvas \<Rightarrow> canvas"
  arc :: "box \<Rightarrow> int \<Rightarrow> int \<Rightarrow> rgba \<Rightarrow> int \<Rightarrow> canvas \<Rightarrow> canvas"

definition paint :: "(canvas \<Rightarrow> canvas) list \<Rightarrow> canvas \<Rightarrow> canvas" where
  "paint ops img = foldl (\<lambda>c op. op c) img ops"

definition py_range :: "nat \<Rightarrow> int list" where
  "py_range n = map int [0..<n]"

definition transparent :: rgba where
  "transparent = (0, 0, 0, 0)"

definition create_infantry_sprite :: "draw_lib \<Rightarrow> int \<Rightarrow> py_error + canvas" where
  "create_infantry_sprite L sz =
     and_then (new_image sz sz transparent) (\<lambda>img.
       let cx = sz div 2; cy = sz div 2;
           head_r = sz div 8;
           body_top = 4 + head_r * 2;
           body_bottom = cy + sz div 4;
           leg_w = sz div 10
       in Inr (paint
         [ellipse L (cx - head_r, 4, cx + head_r, 4 + head_r * 2) (200, 200, 200, 255),
          rectangle L (cx - sz div 6, body_top, cx + sz div 6, body_bottom) (100, 100, 100, 255),
          rectangle L (cx - sz div 5, body_bottom, cx - sz div 5 + leg_w, sz - 4) (80, 80, 80, 255),
          rectangle L (cx + sz div 5 - leg_w, body_bottom, cx + sz div 5, sz - 4) (80, 80, 80, 255),
          rectangle L (cx - sz div 4, body_top + 2, cx - sz div 6, body_bottom - 4) (100, 100, 100, 255),
          rectangle L (cx + sz div 6, body_top + 2, cx + sz div 4, body_bottom - 4) (100, 100, 100, 255),
          line L (cx + sz div 4, body_top + 4, cx + sz div 3 + 4, body_top - 4) (60, 60, 60, 255) 2]
         img))"

definition create_ranger_sprite :: "draw_lib \<Rightarrow> int \<Rightarrow> py_error + canvas" where
  "create_ranger_sprite L sz =
     and_then (new_image sz sz transparent) (\<lambda>img.
       let cx = sz div 2;
           head_r = sz div 10;
           body_top = 3 + head_r * 2
       in Inr (paint
         [ellipse L (cx - head_r - 1, 2, cx + head_r + 1, 2 + head_r * 2 + 2) (60, 80, 60, 255),
          ellipse L (cx - head_r, 3, cx + head_r, 3 + head_r * 2) (180, 160, 140, 255),
          polygon L [(cx, body_top), (cx - sz div 4, sz - 6), (cx + sz div 4, sz - 6)]
            (50, 70, 50, 255),
          line L (cx - 2, body_top + 4, cx + sz div 2 - 2, 0) (40, 40, 40, 255) 3,
          ellipse L (cx + sz div 4 - 1, 2, cx + sz div 4 + 2, 5) (100, 200, 255, 255)]
         img))"

definition create_harvester_sprite :: "draw_lib \<Rightarrow> int \<Rightarrow> py_error + canvas" where
  "create_harvester_sprite L sz =
     and_then (new_image sz sz transparent) (\<lambda>img.
       let body_margin = 4;
           cab_w = sz div 3;
           cx = sz div 2;
           track_y = sz - 5
       in Inr (paint
         ([rectangle L (body_margin, sz div 3, sz - body_margin, sz - 6) (180, 140, 60, 255),
           rectangle L (cx - cab_w div 2, 6, cx + cab_w div 2, sz div 3 + 2) (160, 120, 40, 255),
           rectangle L (cx - cab_w div 4, 8, cx + cab_w div 4, sz div 4) (100, 180, 220, 255),
           polygon L [(2, sz - 8), (body_margin, sz div 2),
                      (body_margin + sz div 4, sz div 2),
                      (body_margin + sz div 4 + 2, sz - 8)] (120, 100, 40, 255),
           ellipse L (body_margin, track_y - 3, body_margin + 8, track_y + 3) (40, 40, 40, 255),
           ellipse L (sz - body_margin - 8, track_y - 3, sz - body_margin, track_y + 3)
             (40, 40, 40, 255)]
          @ map (\<lambda>i. let y = sz div 2 + 4 + i * 4
                    in line L (body_margin + 4, y, sz - body_margin - 4, y) (140, 100, 40, 255) 1)
              (py_range 3))
         img))"

definition create_depot_sprite :: "draw_lib \<Rightarrow> int \<Rightarrow> py_error + canvas" where
  "create_depot_sprite L sz =
     and_then (new_image sz sz transparent) (\<lambda>img.
       let margin = 4;
           win_color = (80, 160, 200, 255);
           win_size = 6;
           door_w = 12;
           door_h = 16;
           cx = sz div 2
       in Inr (paint
         ([rectangle L (margin, sz div 4, sz - margin, sz - margin) (100, 110, 130, 255),
           polygon L [(margin, sz div 4), (sz div 2, margin), (sz - margin, sz div 4)]
             (70, 80, 100, 255)]
          @ concat (map (\<lambda>row. map (\<lambda>col.
                let wx = margin + 8 + col * 12;
                    wy = sz div 4 + 8 + row * 14
                in rectangle L (wx, wy, wx + win_size, wy + win_size) win_color)
              (py_range 4)) (py_range 2))
          @ [rectangle L (cx - door_w div 2, sz - margin - door_h, cx + door_w div 2, sz - margin)
               (60, 50, 40, 255),
             line L (sz - margin - 8, margin + 4, sz - margin - 8, sz div 4) (80, 80, 80, 255) 2,
             ellipse L (sz - margin - 11, margin + 1, sz - margin - 5, margin + 7)
               (255, 100, 100, 255)])
         img))"

definition create_barracks_sprite :: "draw_lib \<Rightarrow> int \<Rightarrow> py_error + canvas" where
  "create_barracks_sprite L sz =
     and_then (new_image sz sz transparent) (\<lambda>img.
       let margin = 3;
           door_w = 20;
           cx = sz div 2;
           star_cx = sz - margin - 10;
           star_cy = sz div 3 + 8
       in Inr (paint
         ([rectangle L (margin, sz div 5, sz - margin, sz - margin) (90, 85, 80, 255),
           rectangle L (margin - 1, sz div 5 - 3, sz - margin + 1, sz div 5 + 2) (70, 65, 60, 255)]
          @ map (\<lambda>i. let wx = margin + 8 + i * 12
                    in rectangle L (wx, sz div 3, wx + 8, sz div 3 + 4) (40, 60, 80, 255))
              (py_range 3)
          @ [rectangle L (cx - door_w div 2, sz div 2, cx + door_w div 2, sz - margin)
               (50, 50, 50, 255),
             line L (cx, sz div 2, cx, sz - margin) (40, 40, 40, 255) 1,
             polygon L [(star_cx, star_cy - 5), (star_cx + 2, star_cy - 1), (star_cx + 5, star_cy),
                        (star_cx + 2, star_cy + 1), (star_cx, star_cy + 5),
                        (star_cx - 2, star_cy + 1), (star_cx - 5, star_cy),
                        (star_cx - 2, star_cy - 1)] (180, 50, 50, 255)])
         img))"

definition create_supply_depot_sprite :: "draw_lib \<Rightarrow> int \<Rightarrow> py_error + canvas" where
  "create_supply_depot_sprite L sz =
     and_then (new_image sz sz transparent) (\<lambda>img.
       let margin = 2;
           door_w = sz - 8
       in Inr (paint
         [rectangle L (margin, sz div 3, sz - margin, sz - margin) (140, 130, 110, 255),
          polygon L [(margin, sz div 3), (sz div 2, margin + 2), (sz - margin, sz div 3)]
            (120, 80, 60, 255),
          rectangle L (4, sz div 2, sz - 4, sz - margin) (100, 90, 70, 255),
          rectangle L (6, sz div 2 + 4, 12, sz - 4) (180, 140, 80, 255),
          rectangle L (14, sz div 2 + 6, 20, sz - 4) (160, 120, 60, 255),
          rectangle L (22, sz div 2 + 4, 28, sz - 4) (170, 130, 70, 255)]
         img))"

definition create_tech_lab_sprite :: "draw_lib \<Rightarrow> int \<Rightarrow> py_error + canvas" where
  "create_tech_lab_sprite L sz =
     and_then (new_image sz sz transparent) (\<lambda>img.
       let margin = 3;
           cx = sz div 2;
           win_color = (100, 200, 255, 255)
       in Inr (paint
         ([rectangle L (margin, sz div 4, sz - margin, sz - margin) (80, 70, 120, 255),
           ellipse L (cx - sz div 4, margin, cx + sz div 4, sz div 3) (100, 90, 150, 255)]
          @ concat (map (\<lambda>i. map (\<lambda>j.
                let wx = margin + 6 + i * 16;
                    wy = sz div 3 + 4 + j * 10
                in ellipse L (wx, wy, wx + 8, wy + 6) win_color)
              (py_range 2)) (py_range 2))
          @ [ellipse L (cx - 4, sz div 5, cx + 4, sz div 5 + 8) (150, 100, 255, 255),
             arc L (sz - margin - 12, margin, sz - margin, margin + 10) 180 360
               (150, 150, 150, 255) 2,
             line L (sz - margin - 6, margin + 5, sz - margin - 6, margin + 12)
               (100, 100, 100, 255) 1])
         img))"

definition create_turret_sprite :: "draw_lib \<Rightarrow> int \<Rightarrow> py_error + canvas" where
  "create_turret_sprite L sz =
     and_then (new_image sz sz transparent) (\<lambda>img.
       let cx = sz div 2; cy = sz div 2;
           base_r = sz div 3;
           col_w = 4;
           head_r = sz div 4
       in Inr (paint
         [ellipse L (cx - base_r, sz - 8, cx + base_r, sz - 2) (80, 80, 80, 255),
          rectangle L (cx - col_w, cy, cx + col_w, sz - 6) (100, 100, 100, 255),
          ellipse L (cx - head_r, cy - head_r + 2, cx + head_r, cy + head_r + 2) (120, 120, 120, 255),
          rectangle L (cx - 2, 2, cx + 2, cy) (60, 60, 60, 255),
          ellipse L (cx - 3, 0, cx + 3, 5) (255, 200, 100, 200)]
         img))"

definition create_resource_node_sprite :: "draw_lib \<Rightarrow> int \<Rightarrow> bool \<Rightarrow> py_error + canvas" where
  "create_resource_node_sprite L sz permanent =
     and_then (new_image sz sz transparent) (\<lambda>img.
       let cx = sz div 2; cy = sz div 2
       in if permanent
          then
            let color = (60, 200, 100, 255)
            in Inr (paint
              [polygon L [(cx, 4), (cx + 10, cy - 4), (cx + 8, sz - 8), (cx - 8, sz - 8),
                          (cx - 10, cy - 4)] color,
               polygon L [(6, cy), (14, 8), (16, cy + 6)] (80, 220, 120, 255),
               polygon L [(sz - 6, cy), (sz - 14, 10), (sz - 16, cy + 4)] (50, 180, 90, 255),
               ellipse L (cx - 6, cy - 2, cx + 6, cy + 8) (100, 255, 150, 100)]
              img)
          else
            let color = (220, 180, 60, 255)
            in Inr (paint
              ([ellipse L (4, sz div 2, sz - 4, sz - 4) (180, 140, 40, 255)]
               @ map (\<lambda>i. let ox = 8 + (i mod 3) * 10 + (i div 3) * 5;
                             oy = sz div 3 + (i mod 2) * 8;
                             chunk_size = 8 + (i mod 3) * 2
                         in ellipse L (ox, oy, ox + chunk_size, oy + chunk_size) color)
                   (py_range 5)
               @ [ellipse L (cx - 2, cy - 4, cx + 2, cy) (255, 240, 180, 255),
                  ellipse L (cx + 6, cy + 2, cx + 9, cy + 5) (255, 230, 160, 255)])
              img))"

definition create_terrain_sprite :: "draw_lib \<Rightarrow> int \<Rightarrow> py_error + canvas" where
  "create_terrain_sprite L sz =
     and_then (new_image sz 60 transparent) (\<lambda>img.
       Inr (paint
         [polygon L [(10, 55), (5, 35), (15, 15), (35, 8), (55, 12), (70, 20), (75, 40), (70, 55)]
            (100, 95, 85, 255),
          polygon L [(20, 45), (18, 30), (30, 18), (45, 20), (48, 35)] (120, 115, 105, 255),
          polygon L [(50, 50), (55, 25), (68, 30), (70, 50)] (80, 75, 65, 255)]
         img))"


section \<open>The driver\<close>

definition CONTINUITY_BLUE :: "int \<times> int \<times> int" where
  "CONTINUITY_BLUE = (51, 102, 204)"

definition COLLEGIUM_GOLD :: "int \<times> int \<times> int" where
  "COLLEGIUM_GOLD = (204, 153, 51)"

text \<open>
  \<^verbatim>\<open>os.path.join(a, b)\<close> for a relative \<open>b\<close>, with the POSIX separator: the
  separator is left out after an empty \<open>a\<close> and after an \<open>a\<close> that ends with one.
\<close>

definition path_join :: "string \<Rightarrow> string \<Rightarrow> string" where
  "path_join a b = (if a = [] \<or> last a = CHR ''/'' then a @ b else a @ ''/'' @ b)"

text \<open>A new image object in the store.\<close>

definition new_object :: "store \<Rightarrow> canvas \<Rightarrow> nat \<times> store" where
  "new_object s c =
     (next_ref s, s\<lparr>objs := (objs s)(next_ref s := c), next_ref := Suc (next_ref s)\<rparr>)"

definition empty_store :: store where
  "empty_store = \<lparr>objs = (\<lambda>_. \<lparr>width = 0, height = 0, rows = []\<rparr>), next_ref = 0\<rparr>"

text \<open>
  What the run has done so far: the image objects, and the files written, oldest first,
  each with the image saved under its path.
\<close>

record world =
  heap :: store
  files :: "(string \<times> canvas) list"

definition save :: "world \<Rightarrow> string \<Rightarrow> nat \<Rightarrow> world" where
  "save w path img = w\<lparr>files := files w @ [(path, objs (heap w) img)]\<rparr>"

text \<open>The dictionary literal of lines 400 to 412: the generators run in this order.\<close>

definition base_sprites :: "draw_lib \<Rightarrow> py_error + (string \<times> canvas) list" where
  "base_sprites L =
     and_then (create_infantry_sprite L 32) (\<lambda>infantry.
     and_then (create_ranger_sprite L 32) (\<lambda>ranger.
     and_then (create_harvester_sprite L 36) (\<lambda>harvester.
     and_then (create_depot_sprite L 64) (\<lambda>depot.
     and_then (create_barracks_sprite L 48) (\<lambda>barracks.
     and_then (create_supply_depot_sprite L 32) (\<lambda>supply_depot.
     and_then (create_tech_lab_sprite L 40) (\<lambda>tech_lab.
     and_then (create_turret_sprite L 24) (\<lambda>turret.
     and_then (create_resource_node_sprite L 40 False) (\<lambda>resource_temp.
     and_then (create_resource_node_sprite L 40 True) (\<lambda>resource_perm.
     and_then (create_terrain_sprite L 80) (\<lambda>terrain.
       Inr [(''infantry'', infantry), (''ranger'', ranger), (''harvester'', harvester),
            (''depot'', depot), (''barracks'', barracks), (''supply_depot'', supply_depot),
            (''tech_lab'', tech_lab), (''turret'', turret),
            (''resource_temp'', resource_temp), (''resource_perm'', resource_perm),
            (''terrain'', terrain)])))))))))))"

text \<open>The generated images become objects; \<open>sprites\<close> maps each name to its reference.\<close>

fun make_objects :: "(string \<times> canvas) list \<Rightarrow> store \<Rightarrow> (string \<times> nat) list \<times> store" where
  "make_objects [] s = ([], s)"
| "make_objects ((name, c) # rest) s =
     (case new_object s c of (r, s1) \<Rightarrow>
      case make_objects rest s1 of (sprites, s2) \<Rightarrow> ((name, r) # sprites, s2))"

text \<open>\<^verbatim>\<open>sprites[sprite_name]\<close>.\<close>

fun lookup :: "(string \<times> 'a) list \<Rightarrow> string \<Rightarrow> py_error + 'a" where
  "lookup [] k = Inl KeyError"
| "lookup ((k', v) # kvs) k = (if k' = k then Inr v else lookup kvs k)"

text \<open>The loop of lines 415 to 418.\<close>

fun save_base :: "string \<Rightarrow> (string \<times> nat) list \<Rightarrow> world \<Rightarrow> world" where
  "save_base out_dir [] w = w"
| "save_base out_dir ((name, img) # rest) w =
     save_base out_dir rest (save w (path_join out_dir (name @ ''.png'')) img)"

text \<open>The inner loop of lines 433 to 437.\<close>

fun tint_sprites :: "string \<Rightarrow> (string \<times> nat) list \<Rightarrow> int \<times> int \<times> int \<Rightarrow> string list
    \<Rightarrow> world \<Rightarrow> py_error + world" where
  "tint_sprites faction_dir sprites faction_color [] w = Inr w"
| "tint_sprites faction_dir sprites faction_color (sprite_name # names) w =
     and_then (lookup sprites sprite_name) (\<lambda>img.
       case apply_faction_tint (heap w) img faction_color lit_0_35 of
         (Inl e, s) \<Rightarrow> Inl e
       | (Inr tinted, s) \<Rightarrow>
           tint_sprites faction_dir sprites faction_color names
             (save (w\<lparr>heap := s\<rparr>) (path_join faction_dir (sprite_name @ ''.png'')) tinted))"

definition unit_sprites :: "string list" where
  "unit_sprites = [''infantry'', ''ranger'', ''harvester'']"

definition building_sprites :: "string list" where
  "building_sprites = [''depot'', ''barracks'', ''supply_depot'', ''tech_lab'', ''turret'']"

text \<open>The outer loop of lines 429 to 437.\<close>

fun tint_factions :: "string \<Rightarrow> (string \<times> nat) list \<Rightarrow> (string \<times> int \<times> int \<times> int) list
    \<Rightarrow> world \<Rightarrow> py_error + world" where
  "tint_factions out_dir sprites [] w = Inr w"
| "tint_factions out_dir sprites ((faction_name, faction_color) # rest) w =
     (let faction_dir = path_join out_dir faction_name
      in and_then
           (tint_sprites faction_dir sprites faction_color (unit_sprites @ building_sprites) w)
           (tint_factions out_dir sprites rest))"

definition factions :: "(string \<times> int \<times> int \<times> int) list" where
  "factions = [(''continuity'', CONTINUITY_BLUE), (''collegium'', COLLEGIUM_GOLD)]"

text \<open>
  \<^verbatim>\<open>main()\<close>, lines 395 to 439, for an output directory \<open>out_dir\<close> (the module's
  \<^verbatim>\<open>OUTPUT_DIR\<close>): the files it has written when it returns.
\<close>

definition main :: "draw_lib \<Rightarrow> string \<Rightarrow> py_error + (string \<times> canvas) list" where
  "main L out_dir =
     and_then (base_sprites L) (\<lambda>imgs.
       case make_objects imgs empty_store of (sprites, s) \<Rightarrow>
         and_then
           (tint_factions out_dir sprites factions
              (save_base out_dir sprites \<lparr>heap = s, files = []\<rparr>))
           (\<lambda>w. Inr (files w)))"

text \<open>A path lies under a directory when it starts with the directory and a separator.\<close>

definition under :: "string \<Rightarrow> string \<Rightarrow> bool" where
  "under dir path = (take (length (dir @ ''/'')) path = dir @ ''/'')"

subsection \<open>What a run is expected to leave\<close>

text \<open>
  The keys of the dictionary of lines 400 to 412, in order, and the dimensions that the
  generator calls there declare for each.
\<close>

definition sprite_names :: "string list" where
  "sprite_names =
     [''infantry'', ''ranger'', ''harvester'', ''depot'', ''barracks'', ''supply_depot'',
      ''tech_lab'', ''turret'', ''resource_temp'', ''resource_perm'', ''terrain'']"

definition declared_sizes :: "(string \<times> nat \<times> nat) list" where
  "declared_sizes =
     [(''infantry'', 32, 32), (''ranger'', 32, 32), (''harvester'', 36, 36),
      (''depot'', 64, 64), (''barracks'', 48, 48), (''supply_depot'', 32, 32),
      (''tech_lab'', 40, 40), (''turret'', 24, 24), (''resource_temp'', 40, 40),
      (''resource_perm'', 40, 40), (''terrain'', 80, 60)]"

definition declared_dims :: "string \<Rightarrow> nat \<times> nat" where
  "declared_dims name = (case map_of declared_sizes name of Some d \<Rightarrow> d | None \<Rightarrow> (0, 0))"

definition image_dims :: "canvas \<Rightarrow> nat \<times> nat" where
  "image_dims c = (width c, height c)"

text \<open>The files of a run with the dimensions of the image in each.\<close>

definition listing :: "(string \<times> canvas) list \<Rightarrow> (string \<times> nat \<times> nat) list" where
  "listing fs = map (\<lambda>(path, c). (path, image_dims c)) fs"

definition all_wf :: "(string \<times> canvas) list \<Rightarrow> bool" where
  "all_wf fs = list_all (\<lambda>(path, c). wf_canvas c) fs"

text \<open>How many files a run has written under a directory.\<close>

definition files_under :: "string \<Rightarrow> py_error + (string \<times> canvas) list \<Rightarrow> py_error + nat" where
  "files_under dir run =
     (case run of Inl e \<Rightarrow> Inl e
      | Inr fs \<Rightarrow> Inr (length (filter (\<lambda>(path, c). under dir path) fs)))"

text \<open>
  The sprite table is sound in a store: every reference is that of an existing,
  well-formed image of the dimensions declared for its name.
\<close>

definition sprites_valid :: "(string \<times> nat) list \<Rightarrow> store \<Rightarrow> bool" where
  "sprites_valid sprites s =
     list_all (\<lambda>(name, img). img < next_ref s \<and> wf_canvas (objs s img) \<and>
                 image_dims (objs s img) = declared_dims name) sprites"

section \<open>What the generators need of the raster library\<close>

text \<open>A primitive keeps the size of the image and leaves a well-formed image well-formed.\<close>

definition keeps_shape :: "(canvas \<Rightarrow> canvas) \<Rightarrow> bool" where
  "keeps_shape op \<longleftrightarrow>
     (\<forall>c. width (op c) = width c \<and> height (op c) = height c \<and>
          (wf_canvas c \<longrightarrow> wf_canvas (op c)))"

definition lib_keeps_shape :: "draw_lib \<Rightarrow> bool" where
  "lib_keeps_shape L \<longleftrightarrow>
     (\<forall>b f. keeps_shape (rectangle L b f)) \<and>
     (\<forall>b f. keeps_shape (ellipse L b f)) \<and>
     (\<forall>ps f. keeps_shape (polygon L ps f)) \<and>
     (\<forall>b f w. keeps_shape (line L b f w)) \<and>
     (\<forall>b s e f w. keeps_shape (arc L b s e f w))"

definition in_box :: "box \<Rightarrow> int \<Rightarrow> int \<Rightarrow> bool" where
  "in_box b x y = (case b of (x0, y0, x1, y1) \<Rightarrow> x0 \<le> x \<and> x \<le> x1 \<and> y0 \<le> y \<and> y \<le> y1)"

text \<open>
  A primitive paints with its fill colour only: a pixel of the image is afterwards what
  it was, or the fill colour. A rectangle and an ellipse paint inside their bounding box
  only. An ellipse at least three pixels wide and high paints the pixel at its centre.
\<close>

definition paints :: "rgba \<Rightarrow> (canvas \<Rightarrow> canvas) \<Rightarrow> bool" where
  "paints f op \<longleftrightarrow>
     (\<forall>c x y. wf_canvas c \<and> x < width c \<and> y < height c \<longrightarrow>
        pixel_at (op c) x y = pixel_at c x y \<or> pixel_at (op c) x y = f)"

definition paints_inside :: "box \<Rightarrow> (canvas \<Rightarrow> canvas) \<Rightarrow> bool" where
  "paints_inside b op \<longleftrightarrow>
     (\<forall>c x y. wf_canvas c \<and> x < width c \<and> y < height c \<and> \<not> in_box b (int x) (int y) \<longrightarrow>
        pixel_at (op c) x y = pixel_at c x y)"

definition paints_centre :: "box \<Rightarrow> rgba \<Rightarrow> (canvas \<Rightarrow> canvas) \<Rightarrow> bool" where
  "paints_centre b f op \<longleftrightarrow>
     (case b of (x0, y0, x1, y1) \<Rightarrow>
        \<forall>c x y. wf_canvas c \<and> x < width c \<and> y < height c \<and>
                x0 + 2 \<le> x1 \<and> y0 + 2 \<le> y1 \<and>
                int x = (x0 + x1) div 2 \<and> int y = (y0 + y1) div 2 \<longrightarrow>
          pixel_at (op c) x y = f)"

definition raster_ok :: "draw_lib \<Rightarrow> bool" where
  "raster_ok L \<longleftrightarrow>
     lib_keeps_shape L \<and>
     (\<forall>b f. paints f (rectangle L b f) \<and> paints_inside b (rectangle L b f)) \<and>
     (\<forall>b f. paints f (ellipse L b f) \<and> paints_inside b (ellipse L b f) \<and>
            paints_centre b f (ellipse L b f)) \<and>
     (\<forall>ps f. paints f (polygon L ps f))"

subsection \<open>A reference rasteriser\<close>

text \<open>
  A plain rasteriser that meets these requirements: each primitive paints the pixels
  that a test on the pixel's coordinates selects. It stands for no particular library;
  it shows that the requirements can be met, and it lets the generators be run.
\<close>

definition fill_where :: "(int \<Rightarrow> int \<Rightarrow> bool) \<Rightarrow> rgba \<Rightarrow> canvas \<Rightarrow> canvas" where
  "fill_where inside f c =
     c\<lparr>rows := map (\<lambda>(y, row). map (\<lambda>(x, p). if inside (int x) (int y) then f else p)
                                   (enumerate 0 row))
                  (enumerate 0 (rows c))\<rparr>"

definition in_ellipse :: "box \<Rightarrow> int \<Rightarrow> int \<Rightarrow> bool" where
  "in_ellipse b x y =
     (case b of (x0, y0, x1, y1) \<Rightarrow>
        (2 * x - (x0 + x1))\<^sup>2 * (y1 - y0)\<^sup>2 + (2 * y - (y0 + y1))\<^sup>2 * (x1 - x0)\<^sup>2
          \<le> (x1 - x0)\<^sup>2 * (y1 - y0)\<^sup>2)"

fun crossings :: "(int \<times> int) \<Rightarrow> (int \<times> int) list \<Rightarrow> int \<Rightarrow> int \<Rightarrow> nat" where
  "crossings p [] x y = 0"
| "crossings (xa, ya) ((xb, yb) # ps) x y =
     (if (ya \<le> y) \<noteq> (yb \<le> y) \<and>
         ((x - xa) * (yb - ya) < (xb - xa) * (y - ya)) = (ya < yb)
      then 1 else 0) + crossings (xb, yb) ps x y"

definition in_polygon :: "(int \<times> int) list \<Rightarrow> int \<Rightarrow> int \<Rightarrow> bool" where
  "in_polygon ps x y = (case ps of [] \<Rightarrow> False | p # qs \<Rightarrow> odd (crossings p (qs @ [p]) x y))"

definition near_line :: "box \<Rightarrow> int \<Rightarrow> int \<Rightarrow> int \<Rightarrow> bool" where
  "near_line b w x y =
     (case b of (x0, y0, x1, y1) \<Rightarrow>
        in_box (min x0 x1 - w, min y0 y1 - w, max x0 x1 + w, max y0 y1 + w) x y \<and>
        4 * ((x - x0) * (y1 - y0) - (y - y0) * (x1 - x0))\<^sup>2
          \<le> w\<^sup>2 * ((x1 - x0)\<^sup>2 + (y1 - y0)\<^sup>2))"

definition on_arc :: "box \<Rightarrow> int \<Rightarrow> int \<Rightarrow> int \<Rightarrow> int \<Rightarrow> int \<Rightarrow> bool" where
  "on_arc b start stop w x y =
     (case b of (x0, y0, x1, y1) \<Rightarrow>
        in_box b x y \<and> in_ellipse b x y \<and>
        \<not> in_ellipse (x0 + w, y0 + w, x1 - w, y1 - w) x y \<and>
        (if start = 180 \<and> stop = 360 then 2 * y \<le> y0 + y1
         else if start = 0 \<and> stop = 180 then y0 + y1 \<le> 2 * y
         else True))"

definition reference_lib :: draw_lib where
  "reference_lib =
     \<lparr>rectangle = (\<lambda>b f. fill_where (in_box b) f),
      ellipse = (\<lambda>b f. fill_where (\<lambda>x y. in_box b x y \<and> in_ellipse b x y) f),
      polygon = (\<lambda>ps f. fill_where (in_polygon ps) f),
      line = (\<lambda>b f w. fill_where (near_line b w) f),
      arc = (\<lambda>b start stop f w. fill_where (on_arc b start stop w) f)\<rparr>"

section \<open>Rounding\<close>

lemma two_powi_pos: "0 < (2::rat) powi e"
  by simp

lemma two_powi_less: "e < f \<Longrightarrow> (2::rat) powi e < 2 powi f"
  by (rule power_int_strict_increasing) simp_all

lemma two_powi_le: "e \<le> f \<Longrightarrow> (2::rat) powi e \<le> 2 powi f"
  by (rule power_int_increasing) simp_all

lemma two_powi_Suc: "(2::rat) powi (e + 1) = 2 * 2 powi e"
  by (simp add: power_int_add)

lemma ilog2_bounds:
  assumes "x \<noteq> 0"
  shows "2 powi ilog2 x \<le> \<bar>x\<bar>" and "\<bar>x\<bar> < 2 powi (ilog2 x + 1)"
proof -
  have "2 powi ilog2 x \<le> \<bar>x\<bar> \<and> \<bar>x\<bar> < 2 powi (ilog2 x + 1)"
  proof (cases "1 \<le> \<bar>x\<bar>")
    case True
    define m where "m = \<lfloor>\<bar>x\<bar>\<rfloor>"
    have m1: "1 \<le> m" using True by (simp add: m_def le_floor_iff)
    then have mpos: "0 < m" by simp
    have b: "2 ^ nat (bitlen m - 1) \<le> m" "m < 2 ^ nat (bitlen m)"
      using bitlen_bounds [OF mpos] by simp_all
    have bl1: "1 \<le> bitlen m" using mpos bitlen_eq_zero_iff [of m] bitlen_nonneg [of m] by linarith
    have e: "ilog2 x = bitlen m - 1" using True by (simp add: ilog2_def m_def)
    have lo: "of_int m \<le> \<bar>x\<bar>" by (simp add: m_def)
    have hi: "\<bar>x\<bar> < of_int (m + 1)" unfolding m_def using floor_correct [of "\<bar>x\<bar>"] by simp
    have "(2::rat) powi (bitlen m - 1) = of_int (2 ^ nat (bitlen m - 1))"
      using bl1 by (simp add: power_int_def)
    also have "\<dots> \<le> of_int m" using b(1) by (simp only: of_int_le_iff)
    finally have A: "2 powi ilog2 x \<le> \<bar>x\<bar>" using lo e by simp
    have "m + 1 \<le> 2 ^ nat (bitlen m)" using b(2) by simp
    then have "(of_int (m + 1) :: rat) \<le> of_int (2 ^ nat (bitlen m))" by (simp only: of_int_le_iff)
    also have "\<dots> = 2 powi (bitlen m)" using bl1 by (simp add: power_int_def)
    finally have B: "\<bar>x\<bar> < 2 powi (ilog2 x + 1)" using hi e by simp
    show ?thesis using A B ..
  next
    case False
    then have lt1: "\<bar>x\<bar> < 1" by simp
    have xpos: "0 < \<bar>x\<bar>" using assms by simp
    define m where "m = \<lceil>1 / \<bar>x\<bar>\<rceil>"
    have inv_gt: "1 < 1 / \<bar>x\<bar>" using lt1 xpos by (simp add: field_simps)
    have m2: "2 \<le> m" unfolding m_def using inv_gt by (simp add: le_ceiling_iff)
    then have mpos: "0 < m - 1" by simp
    define k where "k = bitlen (m - 1)"
    have b: "2 ^ nat (k - 1) \<le> m - 1" "m - 1 < 2 ^ nat k"
      using bitlen_bounds [OF mpos] by (simp_all add: k_def)
    have k1: "1 \<le> k" unfolding k_def
      using mpos bitlen_eq_zero_iff [of "m - 1"] bitlen_nonneg [of "m - 1"] by linarith
    have e: "ilog2 x = - k" using False by (simp add: ilog2_def m_def k_def)
    have up: "1 / \<bar>x\<bar> \<le> of_int m" by (simp add: m_def)
    have low: "of_int (m - 1) < 1 / \<bar>x\<bar>" unfolding m_def
      using ceiling_correct [of "1 / \<bar>x\<bar>"] by simp
    have "m \<le> 2 ^ nat k" using b(2) by simp
    then have "(of_int m :: rat) \<le> of_int (2 ^ nat k)" by (simp only: of_int_le_iff)
    also have "\<dots> = 2 powi k" using k1 by (simp add: power_int_def)
    finally have "1 / \<bar>x\<bar> \<le> 2 powi k" using up by simp
    then have "1 \<le> 2 powi k * \<bar>x\<bar>" using xpos by (simp add: field_simps)
    then have "1 / 2 powi k \<le> \<bar>x\<bar>" by (simp add: field_simps)
    then have A: "2 powi ilog2 x \<le> \<bar>x\<bar>" using e by (simp add: power_int_minus_divide)
    have "(2::rat) powi (k - 1) = of_int (2 ^ nat (k - 1))" using k1 by (simp add: power_int_def)
    also have "\<dots> \<le> of_int (m - 1)" using b(1) by (simp only: of_int_le_iff)
    finally have "2 powi (k - 1) < 1 / \<bar>x\<bar>" using low by simp
    then have "2 powi (k - 1) * \<bar>x\<bar> < 1" using xpos by (simp add: field_simps)
    then have "\<bar>x\<bar> < 1 / 2 powi (k - 1)" by (simp add: field_simps)
    also have "\<dots> = 2 powi (- k + 1)"
      using power_int_minus_divide [of "2::rat" "k - 1"] by simp
    finally have B: "\<bar>x\<bar> < 2 powi (ilog2 x + 1)" using e by simp
    show ?thesis using A B ..
  qed
  then show "2 powi ilog2 x \<le> \<bar>x\<bar>" and "\<bar>x\<bar> < 2 powi (ilog2 x + 1)" by simp_all
qed

lemma ilog2_unique:
  assumes "2 powi e \<le> \<bar>x\<bar>" and "\<bar>x\<bar> < 2 powi (e + 1)"
  shows "ilog2 x = e"
proof -
  have "0 < \<bar>x\<bar>" using assms(1) two_powi_pos [of e] by linarith
  then have nz: "x \<noteq> 0" by simp
  note b = ilog2_bounds [OF nz]
  have "\<not> ilog2 x < e"
  proof
    assume "ilog2 x < e"
    then have "(2::rat) powi (ilog2 x + 1) \<le> 2 powi e" by (intro two_powi_le) simp
    then show False using b(2) assms(1) by linarith
  qed
  moreover have "\<not> e < ilog2 x"
  proof
    assume "e < ilog2 x"
    then have "(2::rat) powi (e + 1) \<le> 2 powi ilog2 x" by (intro two_powi_le) simp
    then show False using b(1) assms(2) by linarith
  qed
  ultimately show ?thesis by simp
qed

lemma ilog2_less:
  assumes "x \<noteq> 0" and "\<bar>x\<bar> < 2 powi k"
  shows "ilog2 x < k"
proof (rule ccontr)
  assume "\<not> ilog2 x < k"
  then have "(2::rat) powi k \<le> 2 powi ilog2 x" by (intro two_powi_le) simp
  then show False using ilog2_bounds(1) [OF assms(1)] assms(2) by linarith
qed

lemma round_even_near: "\<bar>of_int (round_even q) - q\<bar> \<le> 1 / 2"
proof -
  define d where "d = q - of_int \<lfloor>q\<rfloor>"
  have d: "0 \<le> d" "d < 1"
    using floor_correct [of q] by (simp_all add: d_def)
  have q: "q = of_int \<lfloor>q\<rfloor> + d" by (simp add: d_def)
  have "round_even q = (if d < 1 / 2 then \<lfloor>q\<rfloor> else if 1 / 2 < d then \<lfloor>q\<rfloor> + 1
      else if even \<lfloor>q\<rfloor> then \<lfloor>q\<rfloor> else \<lfloor>q\<rfloor> + 1)"
    by (simp add: round_even_def Let_def d_def)
  then consider "round_even q = \<lfloor>q\<rfloor>" "d \<le> 1 / 2" | "round_even q = \<lfloor>q\<rfloor> + 1" "1 / 2 \<le> d"
    by (auto split: if_splits)
  then show ?thesis
  proof cases
    case 1
    then have "of_int (round_even q) - q = - d" by (simp add: d_def)
    then show ?thesis using d 1(2) by simp
  next
    case 2
    then have "of_int (round_even q) - q = 1 - d" by (simp add: d_def)
    then show ?thesis using d 2(2) by simp
  qed
qed

lemma round_even_unique:
  assumes "\<bar>q - of_int n\<bar> < 1 / 2"
  shows "round_even q = n"
proof -
  have "\<bar>of_int (round_even q) - q\<bar> \<le> 1 / 2" by (rule round_even_near)
  then have "\<bar>(of_int (round_even q) :: rat) - of_int n\<bar> < 1" using assms by linarith
  then have "\<bar>(of_int (round_even q - n) :: rat)\<bar> < of_int 1" by simp
  then have "\<bar>round_even q - n\<bar> < 1" by (simp only: of_int_abs [symmetric] of_int_less_iff)
  then show ?thesis by simp
qed

lemma round_even_of_int: "round_even (of_int n) = n"
  by (rule round_even_unique) simp

lemma round_even_nonneg: "0 \<le> q \<Longrightarrow> 0 \<le> round_even q"
  by (auto simp: round_even_def Let_def)

lemma nearest_error:
  assumes "x \<noteq> 0"
  shows "\<bar>nearest x - x\<bar> \<le> 2 powi (ulp_exp x - 1)"
proof -
  define u where "u = (2::rat) powi ulp_exp x"
  have upos: "0 < u" by (simp add: u_def)
  have "\<bar>of_int (round_even (x / u)) - x / u\<bar> \<le> 1 / 2" by (rule round_even_near)
  then have "\<bar>of_int (round_even (x / u)) - x / u\<bar> * u \<le> 1 / 2 * u"
    using upos by (intro mult_right_mono) simp_all
  moreover have "\<bar>of_int (round_even (x / u)) - x / u\<bar> * u = \<bar>of_int (round_even (x / u)) * u - x\<bar>"
  proof -
    have "\<bar>of_int (round_even (x / u)) - x / u\<bar> * u = \<bar>(of_int (round_even (x / u)) - x / u) * u\<bar>"
      using upos by (simp add: abs_mult)
    also have "(of_int (round_even (x / u)) - x / u) * u = of_int (round_even (x / u)) * u - x"
      using upos by (simp add: field_simps)
    finally show ?thesis .
  qed
  moreover have "1 / 2 * u = 2 powi (ulp_exp x - 1)"
    by (simp add: u_def power_int_diff)
  moreover have "nearest x = of_int (round_even (x / u)) * u"
    using assms by (simp add: nearest_def u_def)
  ultimately show ?thesis by (simp only:)
qed

lemma nearest_error_bound:
  assumes "\<bar>x\<bar> < 2 powi k" and "- 1021 \<le> k"
  shows "\<bar>nearest x - x\<bar> \<le> 2 powi (k - 54)"
proof (cases "x = 0")
  case True
  then show ?thesis by (simp add: nearest_def)
next
  case False
  have "ilog2 x < k" using False assms(1) by (rule ilog2_less)
  then have "ulp_exp x - 1 \<le> k - 54" using assms(2) by (simp add: ulp_exp_def)
  then have "(2::rat) powi (ulp_exp x - 1) \<le> 2 powi (k - 54)" by (rule two_powi_le)
  then show ?thesis using nearest_error [OF False] by linarith
qed

lemma nearest_nonneg: "0 \<le> x \<Longrightarrow> 0 \<le> nearest x"
  by (simp add: nearest_def round_even_nonneg)

lemma nearest_evalI:
  assumes "2 powi e \<le> \<bar>x\<bar>" and "\<bar>x\<bar> < 2 powi (e + 1)" and "- 1022 \<le> e"
    and "\<bar>x / 2 powi (e - 52) - of_int n\<bar> < 1 / 2"
  shows "nearest x = of_int n * 2 powi (e - 52)"
proof -
  have "0 < \<bar>x\<bar>" using assms(1) two_powi_pos [of e] by linarith
  then have nz: "x \<noteq> 0" by simp
  have "ilog2 x = e" using assms(1,2) by (rule ilog2_unique)
  then have u: "ulp_exp x = e - 52" using assms(3) by (simp add: ulp_exp_def)
  show ?thesis using nz round_even_unique [OF assms(4)] by (simp add: nearest_def u)
qed

lemma fl_finite:
  assumes "\<bar>nearest x\<bar> < 2 powi 1024"
  shows "fl x = Finite (nearest x)"
  using assms by (auto simp: fl_def Let_def abs_if split: if_splits)

lemma fl_bounded:
  assumes "\<bar>x\<bar> < 2 powi k" and "- 1021 \<le> k" and "k \<le> 1023"
  shows "fl x = Finite (nearest x)"
proof (rule fl_finite)
  have "\<bar>nearest x - x\<bar> \<le> 2 powi (k - 54)" using assms(1,2) by (rule nearest_error_bound)
  moreover have "(2::rat) powi (k - 54) \<le> 2 powi k" by (rule two_powi_le) simp
  ultimately have "\<bar>nearest x\<bar> < 2 powi k + 2 powi k" using assms(1) by linarith
  also have "\<dots> = 2 powi (k + 1)" by (simp add: two_powi_Suc)
  also have "\<dots> \<le> 2 powi 1024" using assms(3) by (intro two_powi_le) simp
  finally show "\<bar>nearest x\<bar> < 2 powi 1024" .
qed

lemma nearest_of_int:
  assumes "\<bar>n\<bar> < 2 ^ 53"
  shows "nearest (of_int n) = of_int n"
proof (cases "n = 0")
  case True
  then show ?thesis by (simp add: nearest_def)
next
  case False
  define x :: rat where "x = of_int n"
  have nz: "x \<noteq> 0" using False by (simp add: x_def)
  define e where "e = ilog2 x"
  note b = ilog2_bounds [OF nz, folded e_def]
  have "(1::rat) \<le> \<bar>x\<bar>" using False unfolding x_def
    by (metis of_int_abs of_int_1 of_int_le_iff abs_ge_zero zero_less_abs_iff int_one_le_iff_zero_less)
  then have "(2::rat) powi 0 < 2 powi (e + 1)" using b(2) by simp
  have e0: "0 \<le> e"
  proof (rule ccontr)
    assume "\<not> 0 \<le> e"
    then have "(2::rat) powi (e + 1) \<le> 2 powi 0" by (intro two_powi_le) simp
    then show False using \<open>(2::rat) powi 0 < 2 powi (e + 1)\<close> by linarith
  qed
  have "\<bar>x\<bar> < 2 ^ 53" unfolding x_def using assms
    by (metis of_int_abs of_int_less_iff of_int_numeral of_int_power)
  then have lt53: "(2::rat) powi e < 2 powi 53" using b(1) by simp
  have e52: "e \<le> 52"
  proof (rule ccontr)
    assume "\<not> e \<le> 52"
    then have "(2::rat) powi 53 \<le> 2 powi e" by (intro two_powi_le) simp
    then show False using lt53 by linarith
  qed
  define m where "m = n * 2 ^ nat (52 - e)"
  have pw: "(2::rat) powi (e - 52) = 1 / 2 ^ nat (52 - e)"
    using e52 power_int_minus_divide [of "2::rat" "52 - e"] by (simp add: power_int_def)
  have q: "x / 2 powi (e - 52) = of_int m"
    by (simp add: pw m_def x_def)
  have u: "ulp_exp x = e - 52" using e0 by (simp add: ulp_exp_def e_def)
  have "nearest x = of_int m * 2 powi (e - 52)"
    using nz by (simp add: nearest_def u q round_even_of_int)
  also have "\<dots> = x" by (simp add: pw m_def x_def)
  finally show ?thesis by (simp add: x_def)
qed

lemma fl_evalI:
  assumes "2 powi e \<le> \<bar>x\<bar>" and "\<bar>x\<bar> < 2 powi (e + 1)" and "- 1022 \<le> e" and "e \<le> 1022"
    and "\<bar>x / 2 powi (e - 52) - of_int n\<bar> < 1 / 2"
  shows "fl x = Finite (of_int n * 2 powi (e - 52))"
proof -
  have "(2::rat) powi (e + 1) \<le> 2 powi 1023" using assms(4) by (intro two_powi_le) simp
  then have "\<bar>x\<bar> < 2 powi 1023" using assms(2) by linarith
  then have "fl x = Finite (nearest x)" by (rule fl_bounded) simp_all
  then show ?thesis using nearest_evalI [OF assms(1,2,3,5)] by simp
qed

lemma round_even_tie:
  assumes "\<bar>q - of_int n\<bar> \<le> 1 / 2" and "even n"
  shows "round_even q = n"
proof (cases "\<bar>q - of_int n\<bar> < 1 / 2")
  case True
  then show ?thesis by (rule round_even_unique)
next
  case False
  then have "q = of_int n + 1 / 2 \<or> q = of_int n - 1 / 2"
    using assms(1) by linarith
  then consider "q = of_int n + 1 / 2" | "q = of_int n - 1 / 2" by blast
  then show ?thesis
  proof cases
    case 1
    have "\<lfloor>q\<rfloor> = n" unfolding 1 by (rule floor_unique) simp_all
    then show ?thesis using assms(2) by (simp add: round_even_def Let_def 1)
  next
    case 2
    have "\<lfloor>q\<rfloor> = n - 1" unfolding 2 by (rule floor_unique) simp_all
    then show ?thesis using assms(2) by (simp add: round_even_def Let_def 2)
  qed
qed

lemma fl_evalI_tie:
  assumes "2 powi e \<le> \<bar>x\<bar>" and "\<bar>x\<bar> < 2 powi (e + 1)" and "- 1022 \<le> e" and "e \<le> 1022"
    and "\<bar>x / 2 powi (e - 52) - of_int n\<bar> \<le> 1 / 2" and "even n"
  shows "fl x = Finite (of_int n * 2 powi (e - 52))"
proof -
  have "0 < \<bar>x\<bar>" using assms(1) two_powi_pos [of e] by linarith
  then have nz: "x \<noteq> 0" by simp
  have "ilog2 x = e" using assms(1,2) by (rule ilog2_unique)
  then have u: "ulp_exp x = e - 52" using assms(3) by (simp add: ulp_exp_def)
  have n: "nearest x = of_int n * 2 powi (e - 52)"
    using nz round_even_tie [OF assms(5,6)] by (simp add: nearest_def u)
  have "(2::rat) powi (e + 1) \<le> 2 powi 1023" using assms(4) by (intro two_powi_le) simp
  then have "\<bar>x\<bar> < 2 powi 1023" using assms(2) by linarith
  then have "fl x = Finite (nearest x)" by (rule fl_bounded) simp_all
  then show ?thesis using n by simp
qed

lemma fl_of_int:
  assumes "\<bar>n\<bar> < 2 ^ 53"
  shows "fl (of_int n) = Finite (of_int n)"
proof -
  have "\<bar>(of_int n :: rat)\<bar> < 2 ^ 53" using assms
    by (metis of_int_abs of_int_less_iff of_int_numeral of_int_power)
  then have "\<bar>(of_int n :: rat)\<bar> < 2 powi 53" by simp
  then have "fl (of_int n) = Finite (nearest (of_int n))" by (rule fl_bounded) simp_all
  then show ?thesis using nearest_of_int [OF assms] by simp
qed

lemma float_of_int_small:
  "\<bar>n\<bar> < 2 ^ 53 \<Longrightarrow> float_of_int n = Inr (Finite (of_int n))"
  by (simp add: float_of_int_def fl_of_int)

lemma int_sub_float_small:
  "\<bar>n\<bar> < 2 ^ 53 \<Longrightarrow> int_sub_float n (Finite x) = Inr (fl (of_int n - x))"
  by (simp add: int_sub_float_def float_of_int_small and_then_def fsub_def)

lemma int_mul_float_small:
  "\<bar>n\<bar> < 2 ^ 53 \<Longrightarrow> int_mul_float n (Finite x) = Inr (fl (of_int n * x))"
  by (simp add: int_mul_float_def float_of_int_small and_then_def)

lemma blend_channel_steps:
  assumes "\<bar>ch\<bar> < 2 ^ 53" and "\<bar>tc\<bar> < 2 ^ 53"
    and "fl (1 - i) = Finite w"
    and "fl (of_int ch * w) = Finite a"
    and "fl (of_int tc * i) = Finite b"
    and "fl (a + b) = Finite s"
  shows "blend_channel ch tc (Finite i) = Inr (if 0 \<le> s then \<lfloor>s\<rfloor> else \<lceil>s\<rceil>)"
  using assms
  by (simp add: blend_channel_def int_sub_float_small int_mul_float_small and_then_def)

lemma blend_channel_range:
  assumes ch: "0 \<le> ch" "ch \<le> 255" and tc: "0 \<le> tc" "tc \<le> 255" and i: "0 \<le> i" "i \<le> 1"
  obtains v where "blend_channel ch tc (Finite i) = Inr v" and "0 \<le> v" and "v \<le> 255"
proof -
  have chr: "(0::rat) \<le> of_int ch" "(of_int ch :: rat) \<le> 255" using ch by simp_all
  have tcr: "(0::rat) \<le> of_int tc" "(of_int tc :: rat) \<le> 255" using tc by simp_all
  define w where "w = nearest (1 - i)"
  have w_lt: "\<bar>1 - i\<bar> < 2 powi 1" using i by simp
  have w: "fl (1 - i) = Finite w" unfolding w_def using w_lt by (rule fl_bounded) simp_all
  have "\<bar>w - (1 - i)\<bar> \<le> 2 powi (1 - 54)" unfolding w_def using w_lt
    by (rule nearest_error_bound) simp
  then have "w - (1 - i) \<le> 2 powi (1 - 54)" by linarith
  then have w1: "w \<le> 1 - i + 1 / 2 ^ 53" by (simp add: power_int_minus_divide)
  have w0: "0 \<le> w" unfolding w_def using i by (intro nearest_nonneg) simp
  define a where "a = nearest (of_int ch * w)"
  have "of_int ch * w \<le> 255 * w" using chr(2) w0 by (rule mult_right_mono)
  then have a'255: "of_int ch * w \<le> 255 * (1 - i) + 255 / 2 ^ 53" using w1 by simp
  have a'0: "0 \<le> of_int ch * w" using chr(1) w0 by simp
  have a_lt: "\<bar>of_int ch * w\<bar> < 2 powi 8" using a'0 a'255 i by simp
  have a: "fl (of_int ch * w) = Finite a" unfolding a_def using a_lt by (rule fl_bounded) simp_all
  have "\<bar>a - of_int ch * w\<bar> \<le> 2 powi (8 - 54)" unfolding a_def using a_lt
    by (rule nearest_error_bound) simp
  then have "a - of_int ch * w \<le> 2 powi (8 - 54)" by linarith
  then have a1: "a \<le> of_int ch * w + 1 / 2 ^ 46" by (simp add: power_int_minus_divide)
  have a0: "0 \<le> a" unfolding a_def using a'0 by (rule nearest_nonneg)
  define b where "b = nearest (of_int tc * i)"
  have b'255: "of_int tc * i \<le> 255 * i" using tcr(2) i(1) by (rule mult_right_mono)
  have b'0: "0 \<le> of_int tc * i" using tcr(1) i(1) by simp
  have b_lt: "\<bar>of_int tc * i\<bar> < 2 powi 8" using b'0 b'255 i by simp
  have b: "fl (of_int tc * i) = Finite b" unfolding b_def using b_lt by (rule fl_bounded) simp_all
  have "\<bar>b - of_int tc * i\<bar> \<le> 2 powi (8 - 54)" unfolding b_def using b_lt
    by (rule nearest_error_bound) simp
  then have "b - of_int tc * i \<le> 2 powi (8 - 54)" by linarith
  then have b1: "b \<le> of_int tc * i + 1 / 2 ^ 46" by (simp add: power_int_minus_divide)
  have b0: "0 \<le> b" unfolding b_def using b'0 by (rule nearest_nonneg)
  define s where "s = nearest (a + b)"
  have s'0: "0 \<le> a + b" using a0 b0 by simp
  have s'255: "a + b \<le> 255 + 255 / 2 ^ 53 + 2 / 2 ^ 46" using a1 b1 a'255 b'255 by simp
  have s_lt: "\<bar>a + b\<bar> < 2 powi 8" using s'0 s'255 by simp
  have s: "fl (a + b) = Finite s" unfolding s_def using s_lt by (rule fl_bounded) simp_all
  have "\<bar>s - (a + b)\<bar> \<le> 2 powi (8 - 54)" unfolding s_def using s_lt
    by (rule nearest_error_bound) simp
  then have "s - (a + b) \<le> 2 powi (8 - 54)" by linarith
  then have "s \<le> a + b + 1 / 2 ^ 46" by (simp add: power_int_minus_divide)
  then have s256: "s < 256" using s'255 by simp
  have s0: "0 \<le> s" unfolding s_def using s'0 by (rule nearest_nonneg)
  have r: "blend_channel ch tc (Finite i) = Inr \<lfloor>s\<rfloor>"
    using blend_channel_steps [OF _ _ w a b s] ch tc s0 by simp
  have "0 \<le> \<lfloor>s\<rfloor>" using s0 by simp
  moreover have "\<lfloor>s\<rfloor> < 256" using s256 by (simp add: floor_less_iff)
  ultimately show ?thesis using r that by simp
qed

lemma blend_channel_zero:
  assumes "\<bar>ch\<bar> < 2 ^ 53" and "\<bar>tc\<bar> < 2 ^ 53"
  shows "blend_channel ch tc (Finite 0) = Inr ch"
proof -
  have 1: "fl (1 - 0) = Finite 1" using fl_of_int [of 1] by simp
  have 2: "fl (of_int ch * 1) = Finite (of_int ch)" using fl_of_int [OF assms(1)] by simp
  have 3: "fl (of_int tc * 0) = Finite 0" using fl_of_int [of 0] by simp
  have 4: "fl (of_int ch + 0) = Finite (of_int ch)" using fl_of_int [OF assms(1)] by simp
  show ?thesis using blend_channel_steps [OF assms 1 2 3 4] by simp
qed

lemma blend_channel_one:
  assumes "\<bar>ch\<bar> < 2 ^ 53" and "\<bar>tc\<bar> < 2 ^ 53"
  shows "blend_channel ch tc (Finite 1) = Inr tc"
proof -
  have 1: "fl (1 - 1) = Finite 0" using fl_of_int [of 0] by simp
  have 2: "fl (of_int ch * 0) = Finite 0" using fl_of_int [of 0] by simp
  have 3: "fl (of_int tc * 1) = Finite (of_int tc)" using fl_of_int [OF assms(2)] by simp
  have 4: "fl (0 + of_int tc) = Finite (of_int tc)" using fl_of_int [OF assms(2)] by simp
  show ?thesis using blend_channel_steps [OF assms 1 2 3 4] by simp
qed

lemma lit_0_35_eq: "lit_0_35 = Finite (3152519739159347 / 2 ^ 53)"
  unfolding lit_0_35_def
  using fl_evalI [of "- 2" "35 / 100" 6305039478318694] by simp

lemma lit_0_4_eq: "lit_0_4 = Finite (3602879701896397 / 2 ^ 53)"
  unfolding lit_0_4_def
  using fl_evalI [of "- 2" "4 / 10" 7205759403792794] by simp

section \<open>The tint loops\<close>

lemma wf_canvasD:
  assumes "wf_canvas c" and "y < height c"
  shows "length (rows c) = height c" and "length (rows c ! y) = width c"
  using assms by (auto simp: wf_canvas_def list_all_length)

lemma wf_canvas_update_row:
  assumes "wf_canvas c" and "length row = width c"
  shows "wf_canvas (c\<lparr>rows := (rows c)[y := row]\<rparr>)"
proof -
  have "length ((rows c)[y := row] ! n) = width c" if "n < height c" for n
  proof (cases "n = y")
    case True
    then show ?thesis using assms that by (simp add: wf_canvas_def)
  next
    case False
    then show ?thesis using assms that by (simp add: wf_canvas_def list_all_length)
  qed
  then show ?thesis using assms by (simp add: wf_canvas_def list_all_length)
qed

lemma tint_xs_run:
  assumes H: "\<And>c x. wf_canvas c \<Longrightarrow> width c = w \<Longrightarrow> height c = h \<Longrightarrow> x < w \<Longrightarrow>
      tint_pixel fc i x y c = Inr (c\<lparr>rows := (rows c)[y := (rows c ! y)[x := g (pixel_at c x y)]]\<rparr>)"
    and "wf_canvas px" and "width px = w" and "height px = h" and "y < h" and "k \<le> w"
  shows "tint_xs fc i y [k..<w] px =
    (None, px\<lparr>rows := (rows px)[y := take k (rows px ! y) @ map g (drop k (rows px ! y))]\<rparr>)"
  using assms(2-)
proof (induction "w - k" arbitrary: k px)
  case 0
  then have "k = w" by simp
  moreover have "length (rows px ! y) = w" using wf_canvasD(2) [of px y] 0 by simp
  ultimately show ?case by simp
next
  case (Suc n)
  then have kw: "k < w" by simp
  define row where "row = rows px ! y"
  have len: "length (rows px) = h" "length row = w"
    using wf_canvasD [of px y] Suc.prems by (simp_all add: row_def)
  define px' where "px' = px\<lparr>rows := (rows px)[y := row[k := g (row ! k)]]\<rparr>"
  have step: "tint_pixel fc i k y px = Inr px'"
    using H [OF Suc.prems(1,2,3) kw] by (simp add: px'_def row_def pixel_at_def)
  have wf': "wf_canvas px'" unfolding px'_def
    using Suc.prems len by (intro wf_canvas_update_row) simp_all
  have dims': "width px' = w" "height px' = h" using Suc.prems by (simp_all add: px'_def)
  have row': "rows px' ! y = row[k := g (row ! k)]"
    using len Suc.prems by (simp add: px'_def)
  have n: "n = w - Suc k" using Suc.hyps(2) by simp
  have IH: "tint_xs fc i y [Suc k..<w] px' =
    (None, px'\<lparr>rows := (rows px')[y := take (Suc k) (rows px' ! y) @ map g (drop (Suc k) (rows px' ! y))]\<rparr>)"
    using Suc.hyps(1) [OF n wf' dims' Suc.prems(4)] kw by simp
  have d: "drop k row = row ! k # drop (Suc k) row"
    using kw len(2) by (simp add: Cons_nth_drop_Suc)
  have "take (Suc k) (row[k := g (row ! k)]) @ map g (drop (Suc k) (row[k := g (row ! k)]))
      = take k row @ map g (drop k row)"
    using kw len(2) by (simp add: take_Suc_conv_app_nth d)
  then have "take (Suc k) (rows px' ! y) @ map g (drop (Suc k) (rows px' ! y))
      = take k row @ map g (drop k row)"
    by (simp only: row')
  then have "px'\<lparr>rows := (rows px')[y := take (Suc k) (rows px' ! y) @ map g (drop (Suc k) (rows px' ! y))]\<rparr>
      = px\<lparr>rows := (rows px)[y := take k row @ map g (drop k row)]\<rparr>"
    by (simp add: px'_def)
  moreover have "[k..<w] = k # [Suc k..<w]" using kw by (rule upt_conv_Cons)
  ultimately show ?case using step IH by (simp add: row_def)
qed

lemma tint_ys_run:
  assumes H: "\<And>c x y. wf_canvas c \<Longrightarrow> width c = w \<Longrightarrow> height c = h \<Longrightarrow> x < w \<Longrightarrow> y < h \<Longrightarrow>
      tint_pixel fc i x y c = Inr (c\<lparr>rows := (rows c)[y := (rows c ! y)[x := g (pixel_at c x y)]]\<rparr>)"
    and "wf_canvas px" and "width px = w" and "height px = h" and "j \<le> h"
  shows "tint_ys fc i [j..<h] px =
    (None, px\<lparr>rows := take j (rows px) @ map (map g) (drop j (rows px))\<rparr>)"
  using assms(2-)
proof (induction "h - j" arbitrary: j px)
  case 0
  then have "j = h" by simp
  moreover have "length (rows px) = h" using 0 by (simp add: wf_canvas_def)
  ultimately show ?case by simp
next
  case (Suc n)
  then have jh: "j < h" by simp
  have len: "length (rows px) = h" "length (rows px ! j) = w"
    using wf_canvasD [of px j] Suc.prems jh by simp_all
  define px' where "px' = px\<lparr>rows := (rows px)[j := map g (rows px ! j)]\<rparr>"
  have "tint_xs fc i j [0..<w] px =
      (None, px\<lparr>rows := (rows px)[j := take 0 (rows px ! j) @ map g (drop 0 (rows px ! j))]\<rparr>)"
  proof (rule tint_xs_run)
    fix c x
    assume "wf_canvas c" "width c = w" "height c = h" "x < w"
    then show "tint_pixel fc i x j c =
        Inr (c\<lparr>rows := (rows c)[j := (rows c ! j)[x := g (pixel_at c x j)]]\<rparr>)"
      using jh by (rule H)
  qed (use Suc.prems jh in simp_all)
  then have inner: "tint_xs fc i j [0..<width px] px = (None, px')"
    using Suc.prems(2) by (simp add: px'_def)
  have wf': "wf_canvas px'" unfolding px'_def
    using Suc.prems len by (intro wf_canvas_update_row) simp_all
  have dims': "width px' = w" "height px' = h" using Suc.prems by (simp_all add: px'_def)
  have n: "n = h - Suc j" using Suc.hyps(2) by simp
  have IH: "tint_ys fc i [Suc j..<h] px' =
    (None, px'\<lparr>rows := take (Suc j) (rows px') @ map (map g) (drop (Suc j) (rows px'))\<rparr>)"
    using Suc.hyps(1) [OF n wf' dims'] jh by simp
  have d: "drop j (rows px) = rows px ! j # drop (Suc j) (rows px)"
    using jh len(1) by (simp add: Cons_nth_drop_Suc)
  have "take (Suc j) (rows px') @ map (map g) (drop (Suc j) (rows px'))
      = take j (rows px) @ map (map g) (drop j (rows px))"
    using jh len(1) by (simp add: px'_def take_Suc_conv_app_nth d)
  then have "px'\<lparr>rows := take (Suc j) (rows px') @ map (map g) (drop (Suc j) (rows px'))\<rparr>
      = px\<lparr>rows := take j (rows px) @ map (map g) (drop j (rows px))\<rparr>"
    by (simp add: px'_def)
  moreover have "[j..<h] = j # [Suc j..<h]" using jh by (rule upt_conv_Cons)
  ultimately show ?case using inner IH by simp
qed

lemma uint8_range: "0 \<le> uint (w :: 8 word)" "uint (w :: 8 word) \<le> 255"
  using uint_lt2p [of w] by simp_all

lemma clip8_uint: "clip8 (uint w) = w"
  using uint8_range [of w] by (simp add: clip8_def)

lemma uint_clip8: "0 \<le> v \<Longrightarrow> v \<le> 255 \<Longrightarrow> uint (clip8 v) = v"
  by (simp add: clip8_def uint_word_of_int take_bit_eq_mod)

lemma blend_pixel_Inr:
  assumes "blend_channel r c0 i = Inr nr" and "blend_channel g c1 i = Inr ng"
    and "blend_channel b c2 i = Inr nb"
  shows "blend_pixel (c0, c1, c2) i (r, g, b, a) = Inr (nr, ng, nb, a)"
  using assms by (simp add: blend_pixel_def and_then_def)

text \<open>When the blend of a pixel raises nothing, the loop body stores \<open>tint_rgba\<close> of it.\<close>

lemma tint_pixel_Inr:
  assumes wf: "wf_canvas c" and x: "x < width c" and y: "y < height c"
    and ok: "\<And>r g b a. \<exists>q. blend_pixel fc i (uint (r :: 8 word), uint (g :: 8 word), uint (b :: 8 word), uint (a :: 8 word)) = Inr q"
  shows "tint_pixel fc i x y c =
    Inr (c\<lparr>rows := (rows c)[y := (rows c ! y)[x := tint_rgba fc i (pixel_at c x y)]]\<rparr>)"
proof -
  obtain r g b a where p: "pixel_at c x y = (r, g, b, a)" by (cases "pixel_at c x y") auto
  have len: "length (rows c) = height c" "length (rows c ! y) = width c"
    using wf_canvasD [OF wf y] by simp_all
  have gp: "getpixel c x y = Inr (uint r, uint g, uint b, uint a)"
    using x y by (simp add: getpixel_def p)
  show ?thesis
  proof (cases "0 < uint a")
    case True
    obtain q where q: "blend_pixel fc i (uint r, uint g, uint b, uint a) = Inr q"
      using ok by blast
    obtain nr ng nb na where q4: "q = (nr, ng, nb, na)" by (cases q) auto
    have "tint_rgba fc i (pixel_at c x y) = (clip8 nr, clip8 ng, clip8 nb, clip8 na)"
      using True by (simp add: tint_rgba_def p q q4)
    then show ?thesis using True x y
      by (simp add: tint_pixel_def gp and_then_def q q4 putpixel_def)
  next
    case False
    have "tint_rgba fc i (pixel_at c x y) = pixel_at c x y"
      using False by (simp add: tint_rgba_def p)
    moreover have "(rows c)[y := (rows c ! y)[x := pixel_at c x y]] = rows c"
      by (simp add: pixel_at_def)
    ultimately show ?thesis using False
      by (simp add: tint_pixel_def gp and_then_def)
  qed
qed

lemma apply_faction_tint_Inr:
  assumes wf: "wf_canvas (objs s img)"
    and ok: "\<And>r g b a. \<exists>q. blend_pixel fc i (uint (r :: 8 word), uint (g :: 8 word), uint (b :: 8 word), uint (a :: 8 word)) = Inr q"
  shows "apply_faction_tint s img fc i =
    (Inr (next_ref s),
     s\<lparr>objs := (objs s)(next_ref s :=
            (objs s img)\<lparr>rows := map (map (tint_rgba fc i)) (rows (objs s img))\<rparr>),
       next_ref := Suc (next_ref s)\<rparr>)"
proof -
  define c where "c = objs s img"
  have "tint_ys fc i [0..<height c] c =
      (None, c\<lparr>rows := take 0 (rows c) @ map (map (tint_rgba fc i)) (drop 0 (rows c))\<rparr>)"
  proof (rule tint_ys_run)
    fix d x y
    assume "wf_canvas d" "width d = width c" "height d = height c" "x < width c" "y < height c"
    then show "tint_pixel fc i x y d =
        Inr (d\<lparr>rows := (rows d)[y := (rows d ! y)[x := tint_rgba fc i (pixel_at d x y)]]\<rparr>)"
      using ok by (intro tint_pixel_Inr) simp_all
  qed (use wf in \<open>simp_all add: c_def\<close>)
  then show ?thesis
    by (simp add: apply_faction_tint_def image_copy_def c_def)
qed

text \<open>Whatever the arguments, the call changes the store at one place only: the new object.\<close>

lemma apply_faction_tint_store:
  assumes "apply_faction_tint s img fc i = (out, s')"
  shows "next_ref s' = Suc (next_ref s)" and "r \<noteq> next_ref s \<Longrightarrow> objs s' r = objs s r"
  using assms
  by (auto simp: apply_faction_tint_def image_copy_def split: prod.splits)

lemma blend_pixel_range:
  assumes "rgb_ok (c0, c1, c2)" and "0 \<le> i" and "i \<le> 1"
  obtains nr ng nb where
    "blend_pixel (c0, c1, c2) (Finite i) (uint (r :: 8 word), uint (g :: 8 word), uint (b :: 8 word), a) = Inr (nr, ng, nb, a)"
    and "blend_channel (uint r) c0 (Finite i) = Inr nr" and "0 \<le> nr" and "nr \<le> 255"
    and "blend_channel (uint g) c1 (Finite i) = Inr ng" and "0 \<le> ng" and "ng \<le> 255"
    and "blend_channel (uint b) c2 (Finite i) = Inr nb" and "0 \<le> nb" and "nb \<le> 255"
proof -
  have c: "0 \<le> c0" "c0 \<le> 255" "0 \<le> c1" "c1 \<le> 255" "0 \<le> c2" "c2 \<le> 255"
    using assms(1) by (simp_all add: rgb_ok_def)
  obtain nr where nr: "blend_channel (uint r) c0 (Finite i) = Inr nr" "0 \<le> nr" "nr \<le> 255"
    using blend_channel_range [OF uint8_range c(1,2) assms(2,3)] by blast
  obtain ng where ng: "blend_channel (uint g) c1 (Finite i) = Inr ng" "0 \<le> ng" "ng \<le> 255"
    using blend_channel_range [OF uint8_range c(3,4) assms(2,3)] by blast
  obtain nb where nb: "blend_channel (uint b) c2 (Finite i) = Inr nb" "0 \<le> nb" "nb \<le> 255"
    using blend_channel_range [OF uint8_range c(5,6) assms(2,3)] by blast
  show ?thesis using that [OF blend_pixel_Inr [OF nr(1) ng(1) nb(1)] nr ng nb] .
qed

lemma blend_channel_formula:
  assumes "\<bar>ch\<bar> < 2 ^ 53" and "\<bar>tc\<bar> < 2 ^ 53"
  shows "blend_channel ch tc x = int_of_float (blend_formula ch tc x)"
  using assms
  by (simp add: blend_channel_def blend_formula_def int_sub_float_def int_mul_float_def
      float_of_int_small [of ch] float_of_int_small [of tc] float_of_int_small [of 1] and_then_def)

lemma blend_ok_unit:
  assumes "rgb_ok fc" and "0 \<le> i" and "i \<le> 1"
  shows "\<exists>q. blend_pixel fc (Finite i) (uint (r :: 8 word), uint (g :: 8 word), uint (b :: 8 word), uint (a :: 8 word)) = Inr q"
proof -
  obtain c0 c1 c2 where fc: "fc = (c0, c1, c2)" by (cases fc) auto
  show ?thesis using blend_pixel_range [of c0 c1 c2 i r g b "uint a"] assms unfolding fc by metis
qed

lemma tint_rgba_unit:
  assumes "rgb_ok (c0, c1, c2)" and "0 \<le> i" and "i \<le> 1"
    and "tint_rgba (c0, c1, c2) (Finite i) (r, g, b, a) = (r', g', b', a')"
  shows "a' = a"
    and "0 < uint a \<Longrightarrow> blend_channel (uint r) c0 (Finite i) = Inr (uint r')"
    and "0 < uint a \<Longrightarrow> blend_channel (uint g) c1 (Finite i) = Inr (uint g')"
    and "0 < uint a \<Longrightarrow> blend_channel (uint b) c2 (Finite i) = Inr (uint b')"
    and "\<not> 0 < uint a \<Longrightarrow> (r', g', b') = (r, g, b)"
proof -
  obtain nr ng nb where q:
    "blend_pixel (c0, c1, c2) (Finite i) (uint r, uint g, uint b, uint a) = Inr (nr, ng, nb, uint a)"
    "blend_channel (uint r) c0 (Finite i) = Inr nr" "0 \<le> nr" "nr \<le> 255"
    "blend_channel (uint g) c1 (Finite i) = Inr ng" "0 \<le> ng" "ng \<le> 255"
    "blend_channel (uint b) c2 (Finite i) = Inr nb" "0 \<le> nb" "nb \<le> 255"
    using blend_pixel_range [OF assms(1,2,3), of r g b "uint a"] by metis
  have t: "(r', g', b', a') =
      (if 0 < uint a then (clip8 nr, clip8 ng, clip8 nb, clip8 (uint a)) else (r, g, b, a))"
    using assms(4) by (cases "0 < uint a") (simp_all add: tint_rgba_def q(1))
  show "a' = a" using t by (simp add: clip8_uint split: if_splits)
  show "0 < uint a \<Longrightarrow> blend_channel (uint r) c0 (Finite i) = Inr (uint r')"
    using t q by (simp add: uint_clip8)
  show "0 < uint a \<Longrightarrow> blend_channel (uint g) c1 (Finite i) = Inr (uint g')"
    using t q by (simp add: uint_clip8)
  show "0 < uint a \<Longrightarrow> blend_channel (uint b) c2 (Finite i) = Inr (uint b')"
    using t q by (simp add: uint_clip8)
  show "\<not> 0 < uint a \<Longrightarrow> (r', g', b') = (r, g, b)"
    using t by simp
qed

lemma pixel_at_map:
  assumes "wf_canvas c" and "x < width c" and "y < height c"
  shows "pixel_at (c\<lparr>rows := map (map f) (rows c)\<rparr>) x y = f (pixel_at c x y)"
  using assms wf_canvasD [OF assms(1,3)] by (simp add: pixel_at_def)

lemma wf_canvas_map:
  "wf_canvas c \<Longrightarrow> wf_canvas (c\<lparr>rows := map (map f) (rows c)\<rparr>)"
  by (simp add: wf_canvas_def list_all_length)

section \<open>The blend at the literals of the source\<close>

lemma blend_r_once: "blend_channel 200 51 lit_0_35 = Inr 147"
proof -
  have w: "fl (1 - 3152519739159347 / 2 ^ 53) = Finite (5854679515581645 / 2 ^ 53)"
    using fl_evalI [of "-1" "1 - 3152519739159347 / 2 ^ 53" 5854679515581645] by simp
  have a: "fl (of_int 200 * (5854679515581645 / 2 ^ 53)) = Finite (130)"
    using fl_evalI [of "7" "of_int 200 * (5854679515581645 / 2 ^ 53)" 4573968371548160] by simp
  have b: "fl (of_int 51 * (3152519739159347 / 2 ^ 53)) = Finite (5024328334285209 / 2 ^ 48)"
    using fl_evalI [of "4" "of_int 51 * (3152519739159347 / 2 ^ 53)" 5024328334285209] by simp
  have s: "fl (130 + 5024328334285209 / 2 ^ 48) = Finite (5202009413333811 / 2 ^ 45)"
    using fl_evalI [of "7" "130 + 5024328334285209 / 2 ^ 48" 5202009413333811] by simp
  have f: "\<lfloor>5202009413333811 / 2 ^ 45 :: rat\<rfloor> = 147" by (rule floor_unique) simp_all
  show ?thesis unfolding lit_0_35_eq
    using blend_channel_steps [OF _ _ w a b s] f by simp
qed

lemma blend_g_once: "blend_channel 200 102 lit_0_35 = Inr 165"
proof -
  have w: "fl (1 - 3152519739159347 / 2 ^ 53) = Finite (5854679515581645 / 2 ^ 53)"
    using fl_evalI [of "-1" "1 - 3152519739159347 / 2 ^ 53" 5854679515581645] by simp
  have a: "fl (of_int 200 * (5854679515581645 / 2 ^ 53)) = Finite (130)"
    using fl_evalI [of "7" "of_int 200 * (5854679515581645 / 2 ^ 53)" 4573968371548160] by simp
  have b: "fl (of_int 102 * (3152519739159347 / 2 ^ 53)) = Finite (5024328334285209 / 2 ^ 47)"
    using fl_evalI [of "5" "of_int 102 * (3152519739159347 / 2 ^ 53)" 5024328334285209] by simp
  have s: "fl (130 + 5024328334285209 / 2 ^ 47) = Finite (2915025227559731 / 2 ^ 44)"
    using fl_evalI [of "7" "130 + 5024328334285209 / 2 ^ 47" 5830050455119462] by simp
  have f: "\<lfloor>2915025227559731 / 2 ^ 44 :: rat\<rfloor> = 165" by (rule floor_unique) simp_all
  show ?thesis unfolding lit_0_35_eq
    using blend_channel_steps [OF _ _ w a b s] f by simp
qed

lemma blend_b_once: "blend_channel 200 204 lit_0_35 = Inr 201"
proof -
  have w: "fl (1 - 3152519739159347 / 2 ^ 53) = Finite (5854679515581645 / 2 ^ 53)"
    using fl_evalI [of "-1" "1 - 3152519739159347 / 2 ^ 53" 5854679515581645] by simp
  have a: "fl (of_int 200 * (5854679515581645 / 2 ^ 53)) = Finite (130)"
    using fl_evalI [of "7" "of_int 200 * (5854679515581645 / 2 ^ 53)" 4573968371548160] by simp
  have b: "fl (of_int 204 * (3152519739159347 / 2 ^ 53)) = Finite (5024328334285209 / 2 ^ 46)"
    using fl_evalI [of "6" "of_int 204 * (3152519739159347 / 2 ^ 53)" 5024328334285209] by simp
  have s: "fl (130 + 5024328334285209 / 2 ^ 46) = Finite (1771533134672691 / 2 ^ 43)"
    using fl_evalI_tie [of "7" "130 + 5024328334285209 / 2 ^ 46" 7086132538690764] by simp
  have f: "\<lfloor>1771533134672691 / 2 ^ 43 :: rat\<rfloor> = 201" by (rule floor_unique) simp_all
  show ?thesis unfolding lit_0_35_eq
    using blend_channel_steps [OF _ _ w a b s] f by simp
qed

lemma blend_r_twice: "blend_channel 147 51 lit_0_35 = Inr 113"
proof -
  have w: "fl (1 - 3152519739159347 / 2 ^ 53) = Finite (5854679515581645 / 2 ^ 53)"
    using fl_evalI [of "-1" "1 - 3152519739159347 / 2 ^ 53" 5854679515581645] by simp
  have a: "fl (of_int 147 * (5854679515581645 / 2 ^ 53)) = Finite (6723733506175795 / 2 ^ 46)"
    using fl_evalI [of "6" "of_int 147 * (5854679515581645 / 2 ^ 53)" 6723733506175795] by simp
  have b: "fl (of_int 51 * (3152519739159347 / 2 ^ 53)) = Finite (5024328334285209 / 2 ^ 48)"
    using fl_evalI [of "4" "of_int 51 * (3152519739159347 / 2 ^ 53)" 5024328334285209] by simp
  have s: "fl (6723733506175795 / 2 ^ 46 + 5024328334285209 / 2 ^ 48) = Finite (7979815589747097 / 2 ^ 46)"
    using fl_evalI [of "6" "6723733506175795 / 2 ^ 46 + 5024328334285209 / 2 ^ 48" 7979815589747097] by simp
  have f: "\<lfloor>7979815589747097 / 2 ^ 46 :: rat\<rfloor> = 113" by (rule floor_unique) simp_all
  show ?thesis unfolding lit_0_35_eq
    using blend_channel_steps [OF _ _ w a b s] f by simp
qed

lemma blend_g_twice: "blend_channel 165 102 lit_0_35 = Inr 142"
proof -
  have w: "fl (1 - 3152519739159347 / 2 ^ 53) = Finite (5854679515581645 / 2 ^ 53)"
    using fl_evalI [of "-1" "1 - 3152519739159347 / 2 ^ 53" 5854679515581645] by simp
  have a: "fl (of_int 165 * (5854679515581645 / 2 ^ 53)) = Finite (429 / 2 ^ 2)"
    using fl_evalI [of "6" "of_int 165 * (5854679515581645 / 2 ^ 53)" 7547047813054464] by simp
  have b: "fl (of_int 102 * (3152519739159347 / 2 ^ 53)) = Finite (5024328334285209 / 2 ^ 47)"
    using fl_evalI [of "5" "of_int 102 * (3152519739159347 / 2 ^ 53)" 5024328334285209] by simp
  have s: "fl (429 / 2 ^ 2 + 5024328334285209 / 2 ^ 47) = Finite (2514802995049267 / 2 ^ 44)"
    using fl_evalI [of "7" "429 / 2 ^ 2 + 5024328334285209 / 2 ^ 47" 5029605990098534] by simp
  have f: "\<lfloor>2514802995049267 / 2 ^ 44 :: rat\<rfloor> = 142" by (rule floor_unique) simp_all
  show ?thesis unfolding lit_0_35_eq
    using blend_channel_steps [OF _ _ w a b s] f by simp
qed

lemma blend_b_twice: "blend_channel 201 204 lit_0_35 = Inr 202"
proof -
  have w: "fl (1 - 3152519739159347 / 2 ^ 53) = Finite (5854679515581645 / 2 ^ 53)"
    using fl_evalI [of "-1" "1 - 3152519739159347 / 2 ^ 53" 5854679515581645] by simp
  have a: "fl (of_int 201 * (5854679515581645 / 2 ^ 53)) = Finite (4596838213405901 / 2 ^ 45)"
    using fl_evalI [of "7" "of_int 201 * (5854679515581645 / 2 ^ 53)" 4596838213405901] by simp
  have b: "fl (of_int 204 * (3152519739159347 / 2 ^ 53)) = Finite (5024328334285209 / 2 ^ 46)"
    using fl_evalI [of "6" "of_int 204 * (3152519739159347 / 2 ^ 53)" 5024328334285209] by simp
  have s: "fl (4596838213405901 / 2 ^ 45 + 5024328334285209 / 2 ^ 46) = Finite (3554501190274253 / 2 ^ 44)"
    using fl_evalI_tie [of "7" "4596838213405901 / 2 ^ 45 + 5024328334285209 / 2 ^ 46" 7109002380548506] by simp
  have f: "\<lfloor>3554501190274253 / 2 ^ 44 :: rat\<rfloor> = 202" by (rule floor_unique) simp_all
  show ?thesis unfolding lit_0_35_eq
    using blend_channel_steps [OF _ _ w a b s] f by simp
qed

lemma blend_r_default: "blend_channel 200 51 lit_0_4 = Inr 140"
proof -
  have w: "fl (1 - 3602879701896397 / 2 ^ 53) = Finite (5404319552844595 / 2 ^ 53)"
    using fl_evalI [of "-1" "1 - 3602879701896397 / 2 ^ 53" 5404319552844595] by simp
  have a: "fl (of_int 200 * (5404319552844595 / 2 ^ 53)) = Finite (120)"
    using fl_evalI [of "6" "of_int 200 * (5404319552844595 / 2 ^ 53)" 8444249301319680] by simp
  have b: "fl (of_int 51 * (3602879701896397 / 2 ^ 53)) = Finite (5742089524897383 / 2 ^ 48)"
    using fl_evalI [of "4" "of_int 51 * (3602879701896397 / 2 ^ 53)" 5742089524897383] by simp
  have s: "fl (120 + 5742089524897383 / 2 ^ 48) = Finite (4939885841272013 / 2 ^ 45)"
    using fl_evalI [of "7" "120 + 5742089524897383 / 2 ^ 48" 4939885841272013] by simp
  have f: "\<lfloor>4939885841272013 / 2 ^ 45 :: rat\<rfloor> = 140" by (rule floor_unique) simp_all
  show ?thesis unfolding lit_0_4_eq
    using blend_channel_steps [OF _ _ w a b s] f by simp
qed

lemma blend_g_default: "blend_channel 200 102 lit_0_4 = Inr 160"
proof -
  have w: "fl (1 - 3602879701896397 / 2 ^ 53) = Finite (5404319552844595 / 2 ^ 53)"
    using fl_evalI [of "-1" "1 - 3602879701896397 / 2 ^ 53" 5404319552844595] by simp
  have a: "fl (of_int 200 * (5404319552844595 / 2 ^ 53)) = Finite (120)"
    using fl_evalI [of "6" "of_int 200 * (5404319552844595 / 2 ^ 53)" 8444249301319680] by simp
  have b: "fl (of_int 102 * (3602879701896397 / 2 ^ 53)) = Finite (5742089524897383 / 2 ^ 47)"
    using fl_evalI [of "5" "of_int 102 * (3602879701896397 / 2 ^ 53)" 5742089524897383] by simp
  have s: "fl (120 + 5742089524897383 / 2 ^ 47) = Finite (2828823515942093 / 2 ^ 44)"
    using fl_evalI [of "7" "120 + 5742089524897383 / 2 ^ 47" 5657647031884186] by simp
  have f: "\<lfloor>2828823515942093 / 2 ^ 44 :: rat\<rfloor> = 160" by (rule floor_unique) simp_all
  show ?thesis unfolding lit_0_4_eq
    using blend_channel_steps [OF _ _ w a b s] f by simp
qed

lemma blend_b_default: "blend_channel 200 204 lit_0_4 = Inr 201"
proof -
  have w: "fl (1 - 3602879701896397 / 2 ^ 53) = Finite (5404319552844595 / 2 ^ 53)"
    using fl_evalI [of "-1" "1 - 3602879701896397 / 2 ^ 53" 5404319552844595] by simp
  have a: "fl (of_int 200 * (5404319552844595 / 2 ^ 53)) = Finite (120)"
    using fl_evalI [of "6" "of_int 200 * (5404319552844595 / 2 ^ 53)" 8444249301319680] by simp
  have b: "fl (of_int 204 * (3602879701896397 / 2 ^ 53)) = Finite (5742089524897383 / 2 ^ 46)"
    using fl_evalI [of "6" "of_int 204 * (3602879701896397 / 2 ^ 53)" 5742089524897383] by simp
  have s: "fl (120 + 5742089524897383 / 2 ^ 46) = Finite (1773292353277133 / 2 ^ 43)"
    using fl_evalI_tie [of "7" "120 + 5742089524897383 / 2 ^ 46" 7093169413108532] by simp
  have f: "\<lfloor>1773292353277133 / 2 ^ 43 :: rat\<rfloor> = 201" by (rule floor_unique) simp_all
  show ?thesis unfolding lit_0_4_eq
    using blend_channel_steps [OF _ _ w a b s] f by simp
qed

text \<open>
  The rounding of the float operations is part of the result: for the channel 0, the
  target 200 and the literal 0.35 the source computes 70, where the same expression over
  the exact value of the literal truncates to 69.
\<close>

lemma blend_rounds_up: "blend_channel 0 200 lit_0_35 = Inr 70"
proof -
  have w: "fl (1 - 3152519739159347 / 2 ^ 53) = Finite (5854679515581645 / 2 ^ 53)"
    using fl_evalI [of "-1" "1 - 3152519739159347 / 2 ^ 53" 5854679515581645] by simp
  have a: "fl (of_int 0 * (5854679515581645 / 2 ^ 53)) = Finite 0" using fl_of_int [of 0] by simp
  have b: "fl (of_int 200 * (3152519739159347 / 2 ^ 53)) = Finite (70)"
    using fl_evalI [of "6" "of_int 200 * (3152519739159347 / 2 ^ 53)" 4925812092436480] by simp
  have s: "fl (0 + 70) = Finite (70)"
    using fl_evalI [of "6" "0 + 70" 4925812092436480] by simp
  have f: "\<lfloor>70 :: rat\<rfloor> = 70" by (rule floor_unique) simp_all
  show ?thesis unfolding lit_0_35_eq
    using blend_channel_steps [OF _ _ w a b s] f by simp
qed

lemma exact_blend_below:
  "\<lfloor>0 * (1 - 3152519739159347 / 2 ^ 53) + 200 * (3152519739159347 / 2 ^ 53) :: rat\<rfloor> = 69"
  by (rule floor_unique) simp_all

text \<open>
  The blend has fixed points away from the target: at the literal 0.35 the channel 203
  stays 203 under the target 204, so a pixel that differs from the target need not
  change when it is tinted.
\<close>

lemma blend_fixed_point: "blend_channel 203 204 lit_0_35 = Inr 203"
proof -
  have w: "fl (1 - 3152519739159347 / 2 ^ 53) = Finite (5854679515581645 / 2 ^ 53)"
    using fl_evalI [of "-1" "1 - 3152519739159347 / 2 ^ 53" 5854679515581645] by simp
  have a: "fl (of_int 203 * (5854679515581645 / 2 ^ 53)) = Finite (4642577897121383 / 2 ^ 45)"
    using fl_evalI [of "7" "of_int 203 * (5854679515581645 / 2 ^ 53)" 4642577897121383] by simp
  have b: "fl (of_int 204 * (3152519739159347 / 2 ^ 53)) = Finite (5024328334285209 / 2 ^ 46)"
    using fl_evalI [of "6" "of_int 204 * (3152519739159347 / 2 ^ 53)" 5024328334285209] by simp
  have s: "fl (4642577897121383 / 2 ^ 45 + 5024328334285209 / 2 ^ 46) = Finite (1788685516065997 / 2 ^ 43)"
    using fl_evalI_tie [of "7" "4642577897121383 / 2 ^ 45 + 5024328334285209 / 2 ^ 46" 7154742064263988] by simp
  have f: "\<lfloor>1788685516065997 / 2 ^ 43 :: rat\<rfloor> = 203" by (rule floor_unique) simp_all
  show ?thesis unfolding lit_0_35_eq
    using blend_channel_steps [OF _ _ w a b s] f by simp
qed

lemma lit_0_35_unit: "\<exists>i. lit_0_35 = Finite i \<and> 0 \<le> i \<and> i \<le> 1"
  unfolding lit_0_35_eq by (rule exI [of _ "3152519739159347 / 2 ^ 53"]) simp

lemma lit_0_4_unit: "\<exists>i. lit_0_4 = Finite i \<and> 0 \<le> i \<and> i \<le> 1"
  unfolding lit_0_4_eq by (rule exI [of _ "3602879701896397 / 2 ^ 53"]) simp

lemma rgb_ok_factions: "rgb_ok CONTINUITY_BLUE" "rgb_ok COLLEGIUM_GOLD"
  by (simp_all add: rgb_ok_def CONTINUITY_BLUE_def COLLEGIUM_GOLD_def)

lemma wf_sample_image: "wf_canvas sample_image"
  by (simp add: wf_canvas_def sample_image_def)

lemma tint_rgba_transparent: "tint_rgba fc i (r, g, b, 0) = (r, g, b, 0)"
  by (simp add: tint_rgba_def)

lemma tint_rgba_once: "tint_rgba CONTINUITY_BLUE lit_0_35 (200, 200, 200, 255) = (147, 165, 201, 255)"
  using blend_pixel_Inr [OF blend_r_once blend_g_once blend_b_once, of 255]
  by (simp add: tint_rgba_def CONTINUITY_BLUE_def clip8_def)

lemma tint_rgba_twice: "tint_rgba CONTINUITY_BLUE lit_0_35 (147, 165, 201, 255) = (113, 142, 202, 255)"
  using blend_pixel_Inr [OF blend_r_twice blend_g_twice blend_b_twice, of 255]
  by (simp add: tint_rgba_def CONTINUITY_BLUE_def clip8_def)

lemma tint_rgba_default: "tint_rgba CONTINUITY_BLUE lit_0_4 (200, 200, 200, 255) = (140, 160, 201, 255)"
  using blend_pixel_Inr [OF blend_r_default blend_g_default blend_b_default, of 255]
  by (simp add: tint_rgba_def CONTINUITY_BLUE_def clip8_def)

lemma apply_faction_tint_literal:
  assumes "wf_canvas (objs s img)" and "rgb_ok fc" and "\<exists>i. lit = Finite i \<and> 0 \<le> i \<and> i \<le> 1"
  shows "apply_faction_tint s img fc lit =
    (Inr (next_ref s),
     s\<lparr>objs := (objs s)(next_ref s :=
            (objs s img)\<lparr>rows := map (map (tint_rgba fc lit)) (rows (objs s img))\<rparr>),
       next_ref := Suc (next_ref s)\<rparr>)"
proof -
  obtain i where i: "lit = Finite i" "0 \<le> i" "i \<le> 1" using assms(3) by blast
  show ?thesis unfolding i(1)
    using assms(1) blend_ok_unit [OF assms(2) i(2,3)] by (rule apply_faction_tint_Inr)
qed

lemma sample_once:
  "apply_faction_tint sample_store 0 CONTINUITY_BLUE lit_0_35 =
    (Inr 1, \<lparr>objs = (\<lambda>_. sample_image)
               (1 := \<lparr>width = 2, height = 1, rows = [[(147, 165, 201, 255), (0, 0, 0, 0)]]\<rparr>),
             next_ref = 2\<rparr>)"
proof -
  have "wf_canvas (objs sample_store 0)" by (simp add: sample_store_def wf_sample_image)
  from apply_faction_tint_literal [OF this rgb_ok_factions(1) lit_0_35_unit]
  show ?thesis
    by (simp add: sample_store_def sample_image_def tint_rgba_once tint_rgba_transparent)
qed

lemma sample_twice:
  "apply_faction_tint
     \<lparr>objs = (\<lambda>_. sample_image)
               (1 := \<lparr>width = 2, height = 1, rows = [[(147, 165, 201, 255), (0, 0, 0, 0)]]\<rparr>),
      next_ref = 2\<rparr> 1 CONTINUITY_BLUE lit_0_35 =
    (Inr 2, \<lparr>objs = (\<lambda>_. sample_image)
               (1 := \<lparr>width = 2, height = 1, rows = [[(147, 165, 201, 255), (0, 0, 0, 0)]]\<rparr>,
                2 := \<lparr>width = 2, height = 1, rows = [[(113, 142, 202, 255), (0, 0, 0, 0)]]\<rparr>),
             next_ref = 3\<rparr>)"
proof -
  let ?s = "\<lparr>objs = (\<lambda>_. sample_image)
               (1 := \<lparr>width = 2, height = 1, rows = [[(147, 165, 201, 255), (0, 0, 0, 0)]]\<rparr>),
      next_ref = 2\<rparr>"
  have "wf_canvas (objs ?s 1)" by (simp add: wf_canvas_def)
  from apply_faction_tint_literal [OF this rgb_ok_factions(1) lit_0_35_unit]
  show ?thesis
    by (simp add: tint_rgba_twice tint_rgba_transparent)
qed

lemma sample_default:
  "apply_faction_tint sample_store 0 CONTINUITY_BLUE lit_0_4 =
    (Inr 1, \<lparr>objs = (\<lambda>_. sample_image)
               (1 := \<lparr>width = 2, height = 1, rows = [[(140, 160, 201, 255), (0, 0, 0, 0)]]\<rparr>),
             next_ref = 2\<rparr>)"
proof -
  have "wf_canvas (objs sample_store 0)" by (simp add: sample_store_def wf_sample_image)
  from apply_faction_tint_literal [OF this rgb_ok_factions(1) lit_0_4_unit]
  show ?thesis
    by (simp add: sample_store_def sample_image_def tint_rgba_default tint_rgba_transparent)
qed

lemma tint_rgba_zero:
  assumes "rgb_ok fc"
  shows "tint_rgba fc (Finite 0) p = p"
proof -
  obtain c0 c1 c2 where fc: "fc = (c0, c1, c2)" by (cases fc) auto
  obtain r g b a where p: "p = (r, g, b, a)" by (cases p) auto
  have c: "\<bar>c0\<bar> < 2 ^ 53" "\<bar>c1\<bar> < 2 ^ 53" "\<bar>c2\<bar> < 2 ^ 53"
    using assms by (simp_all add: rgb_ok_def fc)
  have u: "\<bar>uint w\<bar> < 2 ^ 53" for w :: "8 word" using uint8_range [of w] by simp
  have "blend_pixel (c0, c1, c2) (Finite 0) (uint r, uint g, uint b, uint a)
      = Inr (uint r, uint g, uint b, uint a)"
    by (intro blend_pixel_Inr blend_channel_zero u c)
  then show ?thesis by (simp add: tint_rgba_def fc p clip8_uint)
qed

lemma tint_rgba_one:
  assumes "rgb_ok (c0, c1, c2)"
  shows "tint_rgba (c0, c1, c2) (Finite 1) (r, g, b, a) =
    (if 0 < uint a then (clip8 c0, clip8 c1, clip8 c2, a) else (r, g, b, a))"
proof -
  have c: "\<bar>c0\<bar> < 2 ^ 53" "\<bar>c1\<bar> < 2 ^ 53" "\<bar>c2\<bar> < 2 ^ 53"
    using assms by (simp_all add: rgb_ok_def)
  have u: "\<bar>uint w\<bar> < 2 ^ 53" for w :: "8 word" using uint8_range [of w] by simp
  have "blend_pixel (c0, c1, c2) (Finite 1) (uint r, uint g, uint b, uint a)
      = Inr (c0, c1, c2, uint a)"
    by (intro blend_pixel_Inr blend_channel_one u c)
  then show ?thesis by (simp add: tint_rgba_def clip8_uint)
qed

section \<open>The generators and the raster library\<close>

lemma paint_Nil: "paint [] c = c"
  by (simp add: paint_def)

lemma paint_Cons: "paint (op # ops) c = paint ops (op c)"
  by (simp add: paint_def)

lemma paint_append: "paint (ops @ ops') c = paint ops' (paint ops c)"
  by (simp add: paint_def)

lemma paint_keeps_shape:
  assumes "\<forall>op \<in> set ops. keeps_shape op"
  shows "width (paint ops c) = width c \<and> height (paint ops c) = height c \<and>
    (wf_canvas c \<longrightarrow> wf_canvas (paint ops c))"
  using assms
proof (induction ops arbitrary: c)
  case Nil
  then show ?case by (simp add: paint_Nil)
next
  case (Cons op ops)
  have "keeps_shape op" using Cons.prems by simp
  then have "width (op c) = width c" "height (op c) = height c" "wf_canvas c \<longrightarrow> wf_canvas (op c)"
    by (simp_all add: keeps_shape_def)
  moreover have "width (paint ops (op c)) = width (op c) \<and> height (paint ops (op c)) = height (op c) \<and>
    (wf_canvas (op c) \<longrightarrow> wf_canvas (paint ops (op c)))"
    using Cons.prems by (intro Cons.IH) simp
  ultimately show ?case by (simp add: paint_Cons)
qed

lemma new_image_Inr:
  assumes "0 \<le> w" and "0 \<le> h"
  shows "new_image w h f =
    Inr \<lparr>width = nat w, height = nat h, rows = replicate (nat h) (replicate (nat w) f)\<rparr>"
  using assms by (simp add: new_image_def)

lemma wf_new: "wf_canvas \<lparr>width = w, height = h, rows = replicate h (replicate w f)\<rparr>"
  by (simp add: wf_canvas_def list_all_length)

lemma lib_keeps_shapeD:
  assumes "lib_keeps_shape L"
  shows "keeps_shape (rectangle L b f)" and "keeps_shape (ellipse L b f)"
    and "keeps_shape (polygon L ps f)" and "keeps_shape (line L b f w)"
    and "keeps_shape (arc L b s e f w)"
  using assms unfolding lib_keeps_shape_def by blast+

text \<open>A generator's outcome: a new image of the given size with the draw calls applied.\<close>

lemma painted_new_image:
  assumes "0 \<le> w" and "0 \<le> h" and "\<forall>op \<in> set ops. keeps_shape op"
  shows "\<exists>c. and_then (new_image w h f) (\<lambda>img. Inr (paint ops img)) = Inr c \<and>
    wf_canvas c \<and> width c = nat w \<and> height c = nat h"
  using paint_keeps_shape [OF assms(3), of "\<lparr>width = nat w, height = nat h,
      rows = replicate (nat h) (replicate (nat w) f)\<rparr>"] wf_new [of "nat w" "nat h" f]
  by (simp add: new_image_Inr [OF assms(1,2)] and_then_def)

lemma infantry_shape:
  assumes "lib_keeps_shape L" and "0 \<le> sz"
  shows "\<exists>c. create_infantry_sprite L sz = Inr c \<and> wf_canvas c \<and> width c = nat sz \<and> height c = nat sz"
  unfolding create_infantry_sprite_def Let_def
  by (rule painted_new_image) (use assms in \<open>simp_all add: lib_keeps_shapeD\<close>)

lemma ranger_shape:
  assumes "lib_keeps_shape L" and "0 \<le> sz"
  shows "\<exists>c. create_ranger_sprite L sz = Inr c \<and> wf_canvas c \<and> width c = nat sz \<and> height c = nat sz"
  unfolding create_ranger_sprite_def Let_def
  by (rule painted_new_image) (use assms in \<open>simp_all add: lib_keeps_shapeD\<close>)

lemma harvester_shape:
  assumes "lib_keeps_shape L" and "0 \<le> sz"
  shows "\<exists>c. create_harvester_sprite L sz = Inr c \<and> wf_canvas c \<and> width c = nat sz \<and> height c = nat sz"
  unfolding create_harvester_sprite_def Let_def
  by (rule painted_new_image) (use assms in \<open>auto simp: lib_keeps_shapeD\<close>)

lemma depot_shape:
  assumes "lib_keeps_shape L" and "0 \<le> sz"
  shows "\<exists>c. create_depot_sprite L sz = Inr c \<and> wf_canvas c \<and> width c = nat sz \<and> height c = nat sz"
  unfolding create_depot_sprite_def Let_def
  by (rule painted_new_image) (use assms in \<open>auto simp: lib_keeps_shapeD\<close>)

lemma barracks_shape:
  assumes "lib_keeps_shape L" and "0 \<le> sz"
  shows "\<exists>c. create_barracks_sprite L sz = Inr c \<and> wf_canvas c \<and> width c = nat sz \<and> height c = nat sz"
  unfolding create_barracks_sprite_def Let_def
  by (rule painted_new_image) (use assms in \<open>auto simp: lib_keeps_shapeD\<close>)

lemma supply_depot_shape:
  assumes "lib_keeps_shape L" and "0 \<le> sz"
  shows "\<exists>c. create_supply_depot_sprite L sz = Inr c \<and> wf_canvas c \<and> width c = nat sz \<and> height c = nat sz"
  unfolding create_supply_depot_sprite_def Let_def
  by (rule painted_new_image) (use assms in \<open>auto simp: lib_keeps_shapeD\<close>)

lemma tech_lab_shape:
  assumes "lib_keeps_shape L" and "0 \<le> sz"
  shows "\<exists>c. create_tech_lab_sprite L sz = Inr c \<and> wf_canvas c \<and> width c = nat sz \<and> height c = nat sz"
  unfolding create_tech_lab_sprite_def Let_def
  by (rule painted_new_image) (use assms in \<open>auto simp: lib_keeps_shapeD\<close>)

lemma turret_shape:
  assumes "lib_keeps_shape L" and "0 \<le> sz"
  shows "\<exists>c. create_turret_sprite L sz = Inr c \<and> wf_canvas c \<and> width c = nat sz \<and> height c = nat sz"
  unfolding create_turret_sprite_def Let_def
  by (rule painted_new_image) (use assms in \<open>auto simp: lib_keeps_shapeD\<close>)

lemma resource_node_shape:
  assumes "lib_keeps_shape L" and "0 \<le> sz"
  shows "\<exists>c. create_resource_node_sprite L sz permanent = Inr c \<and> wf_canvas c \<and>
    width c = nat sz \<and> height c = nat sz"
proof (cases permanent)
  case True
  show ?thesis unfolding create_resource_node_sprite_def Let_def using True
    by (simp only: if_True) (rule painted_new_image, use assms in \<open>auto simp: lib_keeps_shapeD\<close>)
next
  case False
  show ?thesis unfolding create_resource_node_sprite_def Let_def using False
    by (simp only: if_False) (rule painted_new_image, use assms in \<open>auto simp: lib_keeps_shapeD\<close>)
qed

lemma terrain_shape:
  assumes "lib_keeps_shape L" and "0 \<le> sz"
  shows "\<exists>c. create_terrain_sprite L sz = Inr c \<and> wf_canvas c \<and> width c = nat sz \<and> height c = 60"
  using painted_new_image [of sz 60 _ transparent] assms
  unfolding create_terrain_sprite_def
  by (auto simp: lib_keeps_shapeD)

lemma fill_where_size:
  "width (fill_where P f c) = width c" "height (fill_where P f c) = height c"
  by (simp_all add: fill_where_def)

lemma fill_where_wf: "wf_canvas c \<Longrightarrow> wf_canvas (fill_where P f c)"
  by (simp add: wf_canvas_def fill_where_def list_all_length nth_enumerate_eq)

lemma fill_where_pixel:
  assumes "wf_canvas c" and "x < width c" and "y < height c"
  shows "pixel_at (fill_where P f c) x y = (if P (int x) (int y) then f else pixel_at c x y)"
  using assms wf_canvasD [OF assms(1,3)]
  by (simp add: pixel_at_def fill_where_def nth_enumerate_eq)

lemma fill_where_keeps_shape: "keeps_shape (fill_where P f)"
  by (simp add: keeps_shape_def fill_where_size fill_where_wf)

lemma reference_lib_keeps_shape: "lib_keeps_shape reference_lib"
  by (simp add: lib_keeps_shape_def reference_lib_def fill_where_keeps_shape)

lemma fill_where_paints: "paints f (fill_where P f)"
  by (simp add: paints_def fill_where_pixel)

lemma fill_where_paints_inside:
  assumes "\<And>x y. P x y \<Longrightarrow> in_box b x y"
  shows "paints_inside b (fill_where P f)"
  using assms by (auto simp: paints_inside_def fill_where_pixel)

lemma square_le_1:
  fixes d :: int
  assumes "d = 0 \<or> d = - 1 \<or> d = 1"
  shows "d\<^sup>2 \<le> 1"
  using assms by auto

lemma centre_in_ellipse:
  fixes x0 y0 x1 y1 :: int
  assumes "x0 + 2 \<le> x1" and "y0 + 2 \<le> y1"
  shows "in_ellipse (x0, y0, x1, y1) ((x0 + x1) div 2) ((y0 + y1) div 2)"
proof -
  define W where "W = x1 - x0"
  define H where "H = y1 - y0"
  define dx where "dx = 2 * ((x0 + x1) div 2) - (x0 + x1)"
  define dy where "dy = 2 * ((y0 + y1) div 2) - (y0 + y1)"
  have "dx = 0 \<or> dx = - 1 \<or> dx = 1" unfolding dx_def by presburger
  then have dx: "dx\<^sup>2 \<le> 1" by (rule square_le_1)
  have "dy = 0 \<or> dy = - 1 \<or> dy = 1" unfolding dy_def by presburger
  then have dy: "dy\<^sup>2 \<le> 1" by (rule square_le_1)
  have W: "2 \<le> W" and H: "2 \<le> H" using assms by (simp_all add: W_def H_def)
  have W2: "4 \<le> W\<^sup>2" using W power_mono [of 2 W 2] by simp
  have H2: "4 \<le> H\<^sup>2" using H power_mono [of 2 H 2] by simp
  have "dx\<^sup>2 * H\<^sup>2 \<le> 1 * H\<^sup>2" using dx by (intro mult_right_mono) simp_all
  moreover have "dy\<^sup>2 * W\<^sup>2 \<le> 1 * W\<^sup>2" using dy by (intro mult_right_mono) simp_all
  moreover have "H\<^sup>2 + W\<^sup>2 \<le> W\<^sup>2 * H\<^sup>2"
  proof -
    have "0 \<le> (W\<^sup>2 - 4) * (H\<^sup>2 - 4)" using W2 H2 by simp
    then have "4 * W\<^sup>2 + 4 * H\<^sup>2 \<le> W\<^sup>2 * H\<^sup>2 + 16" by (simp add: algebra_simps)
    then show ?thesis using W2 H2 by linarith
  qed
  ultimately have "dx\<^sup>2 * H\<^sup>2 + dy\<^sup>2 * W\<^sup>2 \<le> W\<^sup>2 * H\<^sup>2" by linarith
  then show ?thesis by (simp add: in_ellipse_def W_def H_def dx_def dy_def)
qed

lemma centre_in_box:
  fixes x0 y0 x1 y1 :: int
  assumes "x0 + 2 \<le> x1" and "y0 + 2 \<le> y1"
  shows "in_box (x0, y0, x1, y1) ((x0 + x1) div 2) ((y0 + y1) div 2)"
  using assms by (simp add: in_box_def) linarith

lemma reference_lib_ok: "raster_ok reference_lib"
proof -
  have rect: "paints f (rectangle reference_lib b f) \<and> paints_inside b (rectangle reference_lib b f)"
    for b f
    by (simp add: reference_lib_def fill_where_paints fill_where_paints_inside)
  have ell: "paints f (ellipse reference_lib b f) \<and> paints_inside b (ellipse reference_lib b f) \<and>
      paints_centre b f (ellipse reference_lib b f)" for b f
  proof -
    obtain x0 y0 x1 y1 where b: "b = (x0, y0, x1, y1)" by (cases b) auto
    have "paints_centre b f (fill_where (\<lambda>x y. in_box b x y \<and> in_ellipse b x y) f)"
      unfolding paints_centre_def b
      by (simp add: fill_where_pixel centre_in_box centre_in_ellipse)
    moreover have "paints_inside b (fill_where (\<lambda>x y. in_box b x y \<and> in_ellipse b x y) f)"
      by (rule fill_where_paints_inside) simp
    ultimately show ?thesis
      by (simp add: reference_lib_def fill_where_paints)
  qed
  have poly: "paints f (polygon reference_lib ps f)" for ps f
    by (simp add: reference_lib_def fill_where_paints)
  show ?thesis
    unfolding raster_ok_def using reference_lib_keeps_shape rect ell poly by blast
qed

lemma raster_okD:
  assumes "raster_ok L"
  shows "lib_keeps_shape L"
    and "paints f (rectangle L b f)" and "paints_inside b (rectangle L b f)"
    and "paints f (ellipse L b f)" and "paints_inside b (ellipse L b f)"
    and "paints_centre b f (ellipse L b f)"
    and "paints f (polygon L ps f)"
  using assms unfolding raster_ok_def by blast+

text \<open>Draw calls whose boxes miss a pixel leave it as it was.\<close>

lemma paint_outside:
  assumes "\<forall>op \<in> set ops. keeps_shape op \<and> (\<exists>b. paints_inside b op \<and> \<not> in_box b (int x) (int y))"
    and "wf_canvas c" and "x < width c" and "y < height c"
  shows "pixel_at (paint ops c) x y = pixel_at c x y"
  using assms
proof (induction ops arbitrary: c)
  case Nil
  then show ?case by (simp add: paint_Nil)
next
  case (Cons op ops)
  have k: "keeps_shape op" using Cons.prems(1) by simp
  obtain b where b: "paints_inside b op" "\<not> in_box b (int x) (int y)"
    using Cons.prems(1) by auto
  have 1: "pixel_at (op c) x y = pixel_at c x y"
    using b Cons.prems(2,3,4) by (simp add: paints_inside_def)
  have "pixel_at (paint ops (op c)) x y = pixel_at (op c) x y"
    using Cons.prems k by (intro Cons.IH) (simp_all add: keeps_shape_def)
  then show ?case using 1 by (simp add: paint_Cons)
qed

text \<open>Draw calls leave a pixel as it was or give it one of their fill colours.\<close>

lemma paint_fills:
  assumes "\<forall>op \<in> set ops. keeps_shape op \<and> (\<exists>f \<in> F. paints f op)"
    and "wf_canvas c" and "x < width c" and "y < height c"
  shows "pixel_at (paint ops c) x y = pixel_at c x y \<or> pixel_at (paint ops c) x y \<in> F"
  using assms
proof (induction ops arbitrary: c)
  case Nil
  then show ?case by (simp add: paint_Nil)
next
  case (Cons op ops)
  have k: "keeps_shape op" using Cons.prems(1) by simp
  obtain f where f: "f \<in> F" "paints f op" using Cons.prems(1) by auto
  have 1: "pixel_at (op c) x y = pixel_at c x y \<or> pixel_at (op c) x y = f"
    using f(2) Cons.prems(2,3,4) by (simp add: paints_def)
  have "pixel_at (paint ops (op c)) x y = pixel_at (op c) x y \<or> pixel_at (paint ops (op c)) x y \<in> F"
    using Cons.prems k by (intro Cons.IH) (simp_all add: keeps_shape_def)
  then show ?case using 1 f(1) by (auto simp: paint_Cons)
qed

lemma paints_centreD:
  assumes "paints_centre (x0, y0, x1, y1) f op" and "wf_canvas c" and "x < width c" and "y < height c"
    and "x0 + 2 \<le> x1" and "y0 + 2 \<le> y1" and "int x = (x0 + x1) div 2" and "int y = (y0 + y1) div 2"
  shows "pixel_at (op c) x y = f"
  using assms unfolding paints_centre_def by simp

lemma new_canvas_pixel:
  assumes "x < w" and "y < h"
  shows "pixel_at \<lparr>width = w, height = h, rows = replicate h (replicate w f)\<rparr> x y = f"
  using assms by (simp add: pixel_at_def)

lemma ellipse_misses:
  assumes "raster_ok L" and "\<not> in_box b (int x) (int y)"
  shows "keeps_shape (ellipse L b f) \<and>
    (\<exists>b'. paints_inside b' (ellipse L b f) \<and> \<not> in_box b' (int x) (int y))"
  using lib_keeps_shapeD(2) [OF raster_okD(1) [OF assms(1)]] raster_okD(5) [OF assms(1)] assms(2)
  by blast

lemma rectangle_misses:
  assumes "raster_ok L" and "\<not> in_box b (int x) (int y)"
  shows "keeps_shape (rectangle L b f) \<and>
    (\<exists>b'. paints_inside b' (rectangle L b f) \<and> \<not> in_box b' (int x) (int y))"
  using lib_keeps_shapeD(1) [OF raster_okD(1) [OF assms(1)]] raster_okD(3) [OF assms(1)] assms(2)
  by blast

section \<open>The run of the driver\<close>

lemma declared_dims_simps:
  "declared_dims ''infantry'' = (32, 32)" "declared_dims ''ranger'' = (32, 32)"
  "declared_dims ''harvester'' = (36, 36)" "declared_dims ''depot'' = (64, 64)"
  "declared_dims ''barracks'' = (48, 48)" "declared_dims ''supply_depot'' = (32, 32)"
  "declared_dims ''tech_lab'' = (40, 40)" "declared_dims ''turret'' = (24, 24)"
  "declared_dims ''resource_temp'' = (40, 40)" "declared_dims ''resource_perm'' = (40, 40)"
  "declared_dims ''terrain'' = (80, 60)"
  by (simp_all add: declared_dims_def declared_sizes_def)

lemma base_sprites_run:
  assumes "lib_keeps_shape L"
  shows "\<exists>imgs. base_sprites L = Inr imgs \<and> map fst imgs = sprite_names \<and>
    list_all (\<lambda>(name, c). wf_canvas c \<and> image_dims c = declared_dims name) imgs"
proof -
  obtain c1 where c1: "create_infantry_sprite L 32 = Inr c1" "wf_canvas c1" "image_dims c1 = (32, 32)"
    using infantry_shape [OF assms, of 32] by (auto simp: image_dims_def)
  obtain c2 where c2: "create_ranger_sprite L 32 = Inr c2" "wf_canvas c2" "image_dims c2 = (32, 32)"
    using ranger_shape [OF assms, of 32] by (auto simp: image_dims_def)
  obtain c3 where c3: "create_harvester_sprite L 36 = Inr c3" "wf_canvas c3" "image_dims c3 = (36, 36)"
    using harvester_shape [OF assms, of 36] by (auto simp: image_dims_def)
  obtain c4 where c4: "create_depot_sprite L 64 = Inr c4" "wf_canvas c4" "image_dims c4 = (64, 64)"
    using depot_shape [OF assms, of 64] by (auto simp: image_dims_def)
  obtain c5 where c5: "create_barracks_sprite L 48 = Inr c5" "wf_canvas c5" "image_dims c5 = (48, 48)"
    using barracks_shape [OF assms, of 48] by (auto simp: image_dims_def)
  obtain c6 where c6: "create_supply_depot_sprite L 32 = Inr c6" "wf_canvas c6" "image_dims c6 = (32, 32)"
    using supply_depot_shape [OF assms, of 32] by (auto simp: image_dims_def)
  obtain c7 where c7: "create_tech_lab_sprite L 40 = Inr c7" "wf_canvas c7" "image_dims c7 = (40, 40)"
    using tech_lab_shape [OF assms, of 40] by (auto simp: image_dims_def)
  obtain c8 where c8: "create_turret_sprite L 24 = Inr c8" "wf_canvas c8" "image_dims c8 = (24, 24)"
    using turret_shape [OF assms, of 24] by (auto simp: image_dims_def)
  obtain c9 where c9: "create_resource_node_sprite L 40 False = Inr c9" "wf_canvas c9"
      "image_dims c9 = (40, 40)"
    using resource_node_shape [OF assms, of 40 False] by (auto simp: image_dims_def)
  obtain c10 where c10: "create_resource_node_sprite L 40 True = Inr c10" "wf_canvas c10"
      "image_dims c10 = (40, 40)"
    using resource_node_shape [OF assms, of 40 True] by (auto simp: image_dims_def)
  obtain c11 where c11: "create_terrain_sprite L 80 = Inr c11" "wf_canvas c11"
      "image_dims c11 = (80, 60)"
    using terrain_shape [OF assms, of 80] by (auto simp: image_dims_def)
  have "base_sprites L = Inr [(''infantry'', c1), (''ranger'', c2), (''harvester'', c3),
      (''depot'', c4), (''barracks'', c5), (''supply_depot'', c6), (''tech_lab'', c7),
      (''turret'', c8), (''resource_temp'', c9), (''resource_perm'', c10), (''terrain'', c11)]"
    by (simp add: base_sprites_def and_then_def c1 c2 c3 c4 c5 c6 c7 c8 c9 c10 c11)
  then show ?thesis
    using c1 c2 c3 c4 c5 c6 c7 c8 c9 c10 c11
    by (simp add: sprite_names_def declared_dims_simps)
qed

lemma make_objects_run:
  assumes "list_all (\<lambda>(name, c). wf_canvas c \<and> image_dims c = declared_dims name) imgs"
    and "make_objects imgs s = (sprites, s')"
  shows "map fst sprites = map fst imgs \<and> sprites_valid sprites s' \<and>
    next_ref s \<le> next_ref s' \<and> (\<forall>r < next_ref s. objs s' r = objs s r)"
  using assms
proof (induction imgs arbitrary: s sprites s')
  case Nil
  then show ?case by (simp add: sprites_valid_def)
next
  case (Cons a imgs)
  obtain name c where a: "a = (name, c)" by (cases a) auto
  define s1 where "s1 = s\<lparr>objs := (objs s)(next_ref s := c), next_ref := Suc (next_ref s)\<rparr>"
  obtain rest s2 where rest: "make_objects imgs s1 = (rest, s2)" by (cases "make_objects imgs s1") auto
  have res: "sprites = (name, next_ref s) # rest" "s' = s2"
    using Cons.prems(2) rest by (simp_all add: a new_object_def s1_def)
  have tl: "list_all (\<lambda>(name, c). wf_canvas c \<and> image_dims c = declared_dims name) imgs"
    using Cons.prems(1) by simp
  have hd: "wf_canvas c" "image_dims c = declared_dims name" using Cons.prems(1) by (simp_all add: a)
  note IH = Cons.IH [OF tl rest]
  have n: "next_ref s1 = Suc (next_ref s)" by (simp add: s1_def)
  have o: "objs s2 (next_ref s) = c" using IH n by (simp add: s1_def)
  have "sprites_valid sprites s'"
    using IH hd o n by (simp add: sprites_valid_def res)
  moreover have "\<forall>r < next_ref s. objs s' r = objs s r"
    using IH n by (simp add: res s1_def)
  ultimately show ?case using IH n by (simp add: res a)
qed

lemma listing_append: "listing (fs @ gs) = listing fs @ listing gs"
  by (simp add: listing_def)

lemma all_wf_append: "all_wf (fs @ gs) \<longleftrightarrow> all_wf fs \<and> all_wf gs"
  by (simp add: all_wf_def)

lemma save_base_run:
  assumes "sprites_valid sprites (heap w)"
  shows "heap (save_base out_dir sprites w) = heap w \<and>
    listing (files (save_base out_dir sprites w)) =
      listing (files w) @
      map (\<lambda>name. (path_join out_dir (name @ ''.png''), declared_dims name)) (map fst sprites) \<and>
    (all_wf (files w) \<longrightarrow> all_wf (files (save_base out_dir sprites w)))"
  using assms
proof (induction sprites arbitrary: w)
  case Nil
  then show ?case by simp
next
  case (Cons a sprites)
  obtain name img where a: "a = (name, img)" by (cases a) auto
  define w1 where "w1 = save w (path_join out_dir (name @ ''.png'')) img"
  have h1: "heap w1 = heap w" by (simp add: w1_def save_def)
  have v: "wf_canvas (objs (heap w) img)" "image_dims (objs (heap w) img) = declared_dims name"
    using Cons.prems by (simp_all add: sprites_valid_def a)
  have tl: "sprites_valid sprites (heap w1)"
    using Cons.prems by (simp add: sprites_valid_def h1)
  have f1: "listing (files w1) =
      listing (files w) @ [(path_join out_dir (name @ ''.png''), declared_dims name)]"
    using v by (simp add: w1_def save_def listing_def)
  have wf1: "all_wf (files w) \<longrightarrow> all_wf (files w1)"
    using v by (simp add: w1_def save_def all_wf_def)
  show ?case using Cons.IH [OF tl] h1 f1 wf1 by (simp add: a w1_def)
qed

lemma lookup_valid:
  assumes "name \<in> set (map fst sprites)"
  shows "\<exists>img. lookup sprites name = Inr img \<and> (name, img) \<in> set sprites"
  using assms
proof (induction sprites)
  case Nil
  then show ?case by simp
next
  case (Cons a sprites)
  obtain k v where a: "a = (k, v)" by (cases a) auto
  show ?case
  proof (cases "k = name")
    case True
    then show ?thesis by (simp add: a)
  next
    case False
    then have "name \<in> set (map fst sprites)" using Cons.prems by (simp add: a)
    then obtain img where "lookup sprites name = Inr img" "(name, img) \<in> set sprites"
      using Cons.IH by blast
    then show ?thesis using False by (simp add: a)
  qed
qed

lemma sprites_validD:
  assumes "sprites_valid sprites s" and "(name, img) \<in> set sprites"
  shows "img < next_ref s" and "wf_canvas (objs s img)"
    and "image_dims (objs s img) = declared_dims name"
  using assms by (auto simp: sprites_valid_def list_all_iff)

lemma sprites_valid_grow:
  assumes "sprites_valid sprites s" and "next_ref s \<le> next_ref s'"
    and "\<And>r. r < next_ref s \<Longrightarrow> objs s' r = objs s r"
  shows "sprites_valid sprites s'"
  using assms by (auto simp: sprites_valid_def list_all_iff)

lemma tint_sprites_run:
  assumes "sprites_valid sprites (heap w)" and "rgb_ok fc" and "set names \<subseteq> set (map fst sprites)"
  shows "\<exists>w'. tint_sprites dir sprites fc names w = Inr w' \<and>
    sprites_valid sprites (heap w') \<and>
    listing (files w') =
      listing (files w) @ map (\<lambda>name. (path_join dir (name @ ''.png''), declared_dims name)) names \<and>
    (all_wf (files w) \<longrightarrow> all_wf (files w'))"
  using assms
proof (induction names arbitrary: w)
  case Nil
  then show ?case by simp
next
  case (Cons name names)
  obtain img where img: "lookup sprites name = Inr img" "(name, img) \<in> set sprites"
    using lookup_valid [of name sprites] Cons.prems(3) by auto
  note v = sprites_validD [OF Cons.prems(1) img(2)]
  define s where "s = heap w"
  define c' where "c' = (objs s img)\<lparr>rows := map (map (tint_rgba fc lit_0_35)) (rows (objs s img))\<rparr>"
  define s' where "s' = s\<lparr>objs := (objs s)(next_ref s := c'), next_ref := Suc (next_ref s)\<rparr>"
  have run: "apply_faction_tint (heap w) img fc lit_0_35 = (Inr (next_ref s), s')"
    using apply_faction_tint_literal [OF v(2) Cons.prems(2) lit_0_35_unit]
    by (simp add: s_def s'_def c'_def)
  define w1 where "w1 = save (w\<lparr>heap := s'\<rparr>) (path_join dir (name @ ''.png'')) (next_ref s)"
  have step: "tint_sprites dir sprites fc (name # names) w = tint_sprites dir sprites fc names w1"
    by (simp add: img(1) and_then_def run w1_def)
  have h1: "heap w1 = s'" by (simp add: w1_def save_def)
  have wfc: "wf_canvas c'" unfolding c'_def using v(2) by (simp add: s_def wf_canvas_map)
  have dc: "image_dims c' = declared_dims name" using v(3) by (simp add: c'_def image_dims_def s_def)
  have f1: "files w1 = files w @ [(path_join dir (name @ ''.png''), c')]"
    by (simp add: w1_def save_def s'_def)
  have val1: "sprites_valid sprites (heap w1)"
    unfolding h1 using Cons.prems(1)
    by (rule sprites_valid_grow) (simp_all add: s'_def s_def)
  have sub: "set names \<subseteq> set (map fst sprites)" using Cons.prems(3) by simp
  obtain w' where w': "tint_sprites dir sprites fc names w1 = Inr w'"
      "sprites_valid sprites (heap w')"
      "listing (files w') =
        listing (files w1) @ map (\<lambda>name. (path_join dir (name @ ''.png''), declared_dims name)) names"
      "all_wf (files w1) \<longrightarrow> all_wf (files w')"
    using Cons.IH [OF val1 Cons.prems(2) sub] by blast
  have "listing (files w1) = listing (files w) @ [(path_join dir (name @ ''.png''), declared_dims name)]"
    by (simp add: f1 listing_def dc)
  moreover have "all_wf (files w) \<longrightarrow> all_wf (files w1)"
    using wfc by (simp add: f1 all_wf_def)
  ultimately show ?case using step w' by simp
qed

lemma tint_factions_run:
  assumes "sprites_valid sprites (heap w)" and "list_all (\<lambda>(name, fc). rgb_ok fc) fs"
    and "set (unit_sprites @ building_sprites) \<subseteq> set (map fst sprites)"
  shows "\<exists>w'. tint_factions out_dir sprites fs w = Inr w' \<and>
    listing (files w') =
      listing (files w) @
      concat (map (\<lambda>(faction_name, fc).
          map (\<lambda>name. (path_join (path_join out_dir faction_name) (name @ ''.png''), declared_dims name))
            (unit_sprites @ building_sprites)) fs) \<and>
    (all_wf (files w) \<longrightarrow> all_wf (files w'))"
  using assms
proof (induction fs arbitrary: w)
  case Nil
  then show ?case by simp
next
  case (Cons a fs)
  obtain faction_name fc where a: "a = (faction_name, fc)" by (cases a) auto
  have ok: "rgb_ok fc" and rest: "list_all (\<lambda>(name, fc). rgb_ok fc) fs"
    using Cons.prems(2) by (simp_all add: a)
  obtain w1 where w1: "tint_sprites (path_join out_dir faction_name) sprites fc
        (unit_sprites @ building_sprites) w = Inr w1"
      "sprites_valid sprites (heap w1)"
      "listing (files w1) = listing (files w) @
        map (\<lambda>name. (path_join (path_join out_dir faction_name) (name @ ''.png''), declared_dims name))
          (unit_sprites @ building_sprites)"
      "all_wf (files w) \<longrightarrow> all_wf (files w1)"
    using tint_sprites_run [OF Cons.prems(1) ok Cons.prems(3)] by blast
  obtain w' where w': "tint_factions out_dir sprites fs w1 = Inr w'"
      "listing (files w') = listing (files w1) @
        concat (map (\<lambda>(faction_name, fc).
          map (\<lambda>name. (path_join (path_join out_dir faction_name) (name @ ''.png''), declared_dims name))
            (unit_sprites @ building_sprites)) fs)"
      "all_wf (files w1) \<longrightarrow> all_wf (files w')"
    using Cons.IH [OF w1(2) rest Cons.prems(3)] by blast
  have "tint_factions out_dir sprites (a # fs) w = Inr w'"
    by (simp add: a Let_def w1(1) and_then_def w'(1))
  then show ?case using w1 w' by (simp add: a)
qed

text \<open>The files of a complete run, in the order written.\<close>

lemma main_run:
  assumes "lib_keeps_shape L"
  shows "\<exists>fs. main L out_dir = Inr fs \<and> all_wf fs \<and>
    listing fs =
      map (\<lambda>name. (path_join out_dir (name @ ''.png''), declared_dims name)) sprite_names @
      map (\<lambda>name. (path_join (path_join out_dir ''continuity'') (name @ ''.png''), declared_dims name))
        (unit_sprites @ building_sprites) @
      map (\<lambda>name. (path_join (path_join out_dir ''collegium'') (name @ ''.png''), declared_dims name))
        (unit_sprites @ building_sprites)"
proof -
  obtain imgs where imgs: "base_sprites L = Inr imgs" "map fst imgs = sprite_names"
      "list_all (\<lambda>(name, c). wf_canvas c \<and> image_dims c = declared_dims name) imgs"
    using base_sprites_run [OF assms] by blast
  obtain sprites s where mk: "make_objects imgs empty_store = (sprites, s)"
    by (cases "make_objects imgs empty_store") auto
  have sp: "map fst sprites = sprite_names" "sprites_valid sprites s"
    using make_objects_run [OF imgs(3) mk] imgs(2) by simp_all
  define w0 where "w0 = \<lparr>heap = s, files = []\<rparr>"
  define w1 where "w1 = save_base out_dir sprites w0"
  have v0: "sprites_valid sprites (heap w0)" using sp(2) by (simp add: w0_def)
  have b: "heap w1 = s"
      "listing (files w1) =
        map (\<lambda>name. (path_join out_dir (name @ ''.png''), declared_dims name)) sprite_names"
      "all_wf (files w1)"
    using save_base_run [OF v0, of out_dir] sp(1)
    by (simp_all add: w1_def w0_def listing_def all_wf_def)
  have v1: "sprites_valid sprites (heap w1)" using sp(2) b(1) by simp
  have fok: "list_all (\<lambda>(name, fc). rgb_ok fc) factions"
    by (simp add: factions_def rgb_ok_factions)
  have sub: "set (unit_sprites @ building_sprites) \<subseteq> set (map fst sprites)"
    by (simp add: sp(1) sprite_names_def unit_sprites_def building_sprites_def)
  obtain w' where w': "tint_factions out_dir sprites factions w1 = Inr w'"
      "listing (files w') =
        listing (files w1) @
        concat (map (\<lambda>(faction_name, fc).
          map (\<lambda>name. (path_join (path_join out_dir faction_name) (name @ ''.png''), declared_dims name))
            (unit_sprites @ building_sprites)) factions)"
      "all_wf (files w1) \<longrightarrow> all_wf (files w')"
    using tint_factions_run [OF v1 fok sub] by blast
  have "main L out_dir = Inr (files w')"
    by (simp add: main_def imgs(1) and_then_def mk w'(1) [unfolded w1_def w0_def])
  moreover have "all_wf (files w')" using w'(3) b(3) by simp
  moreover have "listing (files w') =
      map (\<lambda>name. (path_join out_dir (name @ ''.png''), declared_dims name)) sprite_names @
      map (\<lambda>name. (path_join (path_join out_dir ''continuity'') (name @ ''.png''), declared_dims name))
        (unit_sprites @ building_sprites) @
      map (\<lambda>name. (path_join (path_join out_dir ''collegium'') (name @ ''.png''), declared_dims name))
        (unit_sprites @ building_sprites)"
    unfolding w'(2) b(2) by (simp add: factions_def)
  ultimately show ?thesis by blast
qed

lemma map_fst_listing: "map fst (listing fs) = map fst fs"
  by (induction fs) (auto simp: listing_def)

lemma count_under_listing:
  "length (filter (\<lambda>(path, c). under dir path) fs) =
   length (filter (under dir) (map fst (listing fs)))"
  by (induction fs) (auto simp: listing_def)

lemma driver_paths_distinct:
  "distinct
    (map (\<lambda>name. path_join out_dir (name @ ''.png'')) sprite_names @
     map (\<lambda>name. path_join (path_join out_dir ''continuity'') (name @ ''.png''))
       (unit_sprites @ building_sprites) @
     map (\<lambda>name. path_join (path_join out_dir ''collegium'') (name @ ''.png''))
       (unit_sprites @ building_sprites))"
proof (cases "out_dir = [] \<or> last out_dir = CHR ''/''")
  case True
  then have "path_join out_dir x = out_dir @ x" for x by (simp add: path_join_def)
  then show ?thesis
    by (simp add: path_join_def sprite_names_def unit_sprites_def building_sprites_def)
next
  case False
  then have "path_join out_dir x = out_dir @ ''/'' @ x" for x by (simp add: path_join_def)
  then show ?thesis
    by (simp add: path_join_def sprite_names_def unit_sprites_def building_sprites_def)
qed

section \<open>The claims about the tint transform\<close>

text \<open>
  Claim C1. For a well-formed image, a target colour with channels in 0 to 255 and an
  intensity in \<open>[0, 1]\<close>, \<^verbatim>\<open>apply_faction_tint\<close> raises nothing and returns a new
  image object of the same width and height. In it, every pixel keeps its alpha; a pixel
  with alpha above 0 has each of R, G and B replaced by the truncated value of
  \<^verbatim>\<open>channel*(1-intensity) + target_channel*intensity\<close>, computed in float arithmetic as
  the source computes it; a pixel with alpha 0 is unchanged.
\<close>

theorem apply_faction_tint_contract:
  assumes "wf_canvas (objs s img)" and "rgb_ok (c0, c1, c2)" and "0 \<le> i" and "i \<le> 1"
  shows "\<exists>result s'.
    apply_faction_tint s img (c0, c1, c2) (Finite i) = (Inr result, s') \<and>
    next_ref s \<le> result \<and>
    wf_canvas (objs s' result) \<and>
    width (objs s' result) = width (objs s img) \<and>
    height (objs s' result) = height (objs s img) \<and>
    (\<forall>x y. x < width (objs s img) \<and> y < height (objs s img) \<longrightarrow>
       (case pixel_at (objs s img) x y of (r, g, b, a) \<Rightarrow>
        case pixel_at (objs s' result) x y of (r', g', b', a') \<Rightarrow>
          a' = a \<and>
          (if 0 < uint a
           then int_of_float (blend_formula (uint r) c0 (Finite i)) = Inr (uint r') \<and>
                int_of_float (blend_formula (uint g) c1 (Finite i)) = Inr (uint g') \<and>
                int_of_float (blend_formula (uint b) c2 (Finite i)) = Inr (uint b')
           else (r', g', b') = (r, g, b))))"
proof -
  define c where "c = objs s img"
  define fc where "fc = (c0, c1, c2)"
  define c' where "c' = c\<lparr>rows := map (map (tint_rgba fc (Finite i))) (rows c)\<rparr>"
  define s' where "s' = s\<lparr>objs := (objs s)(next_ref s := c'), next_ref := Suc (next_ref s)\<rparr>"
  have wf: "wf_canvas c" using assms(1) by (simp add: c_def)
  have run: "apply_faction_tint s img fc (Finite i) = (Inr (next_ref s), s')"
    unfolding s'_def c'_def c_def
    using assms(1) blend_ok_unit [of fc i] assms(2,3,4)
    by (intro apply_faction_tint_Inr) (simp_all add: fc_def)
  have res: "objs s' (next_ref s) = c'" by (simp add: s'_def)
  have c0b: "\<bar>c0\<bar> < 2 ^ 53" "\<bar>c1\<bar> < 2 ^ 53" "\<bar>c2\<bar> < 2 ^ 53"
    using assms(2) by (simp_all add: rgb_ok_def)
  have u: "\<bar>uint w\<bar> < 2 ^ 53" for w :: "8 word" using uint8_range [of w] by simp
  have px: "case pixel_at c x y of (r, g, b, a) \<Rightarrow>
        case pixel_at c' x y of (r', g', b', a') \<Rightarrow>
          a' = a \<and>
          (if 0 < uint a
           then int_of_float (blend_formula (uint r) c0 (Finite i)) = Inr (uint r') \<and>
                int_of_float (blend_formula (uint g) c1 (Finite i)) = Inr (uint g') \<and>
                int_of_float (blend_formula (uint b) c2 (Finite i)) = Inr (uint b')
           else (r', g', b') = (r, g, b))"
    if "x < width c" "y < height c" for x y
  proof -
    obtain r g b a where p: "pixel_at c x y = (r, g, b, a)" by (cases "pixel_at c x y") auto
    obtain r' g' b' a' where p': "pixel_at c' x y = (r', g', b', a')"
      by (cases "pixel_at c' x y") auto
    have "tint_rgba (c0, c1, c2) (Finite i) (r, g, b, a) = (r', g', b', a')"
      using pixel_at_map [OF wf that, of "tint_rgba fc (Finite i)"] p p'
      by (simp add: c'_def fc_def)
    note t = tint_rgba_unit [OF assms(2,3,4) this]
    show ?thesis unfolding p p'
      using t by (simp add: blend_channel_formula [OF u c0b(1), symmetric]
          blend_channel_formula [OF u c0b(2), symmetric] blend_channel_formula [OF u c0b(3), symmetric])
  qed
  have "wf_canvas c'" unfolding c'_def using wf by (rule wf_canvas_map)
  moreover have "width c' = width c" "height c' = height c" by (simp_all add: c'_def)
  ultimately show ?thesis
    using run px unfolding fc_def c_def [symmetric]
    by (intro exI [of _ "next_ref s"] exI [of _ s']) (simp add: res)
qed

theorem apply_faction_tint_contract_witness:
  "wf_canvas (objs sample_store 0) \<and> rgb_ok (51, 102, 204) \<and>
   (0::rat) \<le> 3152519739159347 / 2 ^ 53 \<and> (3152519739159347 / 2 ^ 53 :: rat) \<le> 1 \<and>
   (\<exists>result s'.
    apply_faction_tint sample_store 0 (51, 102, 204) (Finite (3152519739159347 / 2 ^ 53)) = (Inr result, s') \<and>
    next_ref sample_store \<le> result \<and>
    wf_canvas (objs s' result) \<and>
    width (objs s' result) = width (objs sample_store 0) \<and>
    height (objs s' result) = height (objs sample_store 0) \<and>
    (\<forall>x y. x < width (objs sample_store 0) \<and> y < height (objs sample_store 0) \<longrightarrow>
       (case pixel_at (objs sample_store 0) x y of (r, g, b, a) \<Rightarrow>
        case pixel_at (objs s' result) x y of (r', g', b', a') \<Rightarrow>
          a' = a \<and>
          (if 0 < uint a
           then int_of_float (blend_formula (uint r) 51 (Finite (3152519739159347 / 2 ^ 53))) = Inr (uint r') \<and>
                int_of_float (blend_formula (uint g) 102 (Finite (3152519739159347 / 2 ^ 53))) = Inr (uint g') \<and>
                int_of_float (blend_formula (uint b) 204 (Finite (3152519739159347 / 2 ^ 53))) = Inr (uint b')
           else (r', g', b') = (r, g, b)))))"
proof -
  have h1: "wf_canvas (objs sample_store 0)" by (simp add: sample_store_def wf_sample_image)
  have h2: "rgb_ok (51, 102, 204)" by (simp add: rgb_ok_def)
  have h3: "(0::rat) \<le> 3152519739159347 / 2 ^ 53" by simp
  have h4: "(3152519739159347 / 2 ^ 53 :: rat) \<le> 1" by simp
  show ?thesis
    by (intro conjI h1 h2 h3 h4) (rule apply_faction_tint_contract [OF h1 h2 h3 h4])
qed

text \<open>
  Claim C3. For a well-formed image and a target colour with channels in 0 to 255:
  at intensity 0 the returned image equals the input image, pixel for pixel; at
  intensity 1 every pixel with alpha above 0 has exactly the target colour as its R, G
  and B, every pixel keeps its alpha, and a pixel with alpha 0 is unchanged. (The
  integers 0 and 1 passed as intensity give the same values as the floats 0.0 and 1.0.)
\<close>

theorem tint_at_zero_and_one:
  assumes "wf_canvas (objs s img)" and "rgb_ok (c0, c1, c2)"
  shows "(\<exists>result s'.
      apply_faction_tint s img (c0, c1, c2) (Finite 0) = (Inr result, s') \<and>
      objs s' result = objs s img) \<and>
    (\<exists>result s'.
      apply_faction_tint s img (c0, c1, c2) (Finite 1) = (Inr result, s') \<and>
      width (objs s' result) = width (objs s img) \<and>
      height (objs s' result) = height (objs s img) \<and>
      (\<forall>x y. x < width (objs s img) \<and> y < height (objs s img) \<longrightarrow>
         (case pixel_at (objs s img) x y of (r, g, b, a) \<Rightarrow>
          case pixel_at (objs s' result) x y of (r', g', b', a') \<Rightarrow>
            a' = a \<and>
            (if 0 < uint a then (uint r', uint g', uint b') = (c0, c1, c2)
             else (r', g', b') = (r, g, b)))))"
proof (rule conjI)
  define c where "c = objs s img"
  have wf: "wf_canvas c" using assms(1) by (simp add: c_def)
  have zero: "0 \<le> (0::rat)" "(0::rat) \<le> 1" and one: "0 \<le> (1::rat)" "(1::rat) \<le> 1" by simp_all
  have cb: "0 \<le> c0" "c0 \<le> 255" "0 \<le> c1" "c1 \<le> 255" "0 \<le> c2" "c2 \<le> 255"
    using assms(2) by (simp_all add: rgb_ok_def)
  have "map (map (tint_rgba (c0, c1, c2) (Finite 0))) (rows c) = rows c"
    by (simp add: tint_rgba_zero [OF assms(2)] map_idI)
  then have same: "c\<lparr>rows := map (map (tint_rgba (c0, c1, c2) (Finite 0))) (rows c)\<rparr> = c"
    by simp
  have "apply_faction_tint s img (c0, c1, c2) (Finite 0) =
      (Inr (next_ref s), s\<lparr>objs := (objs s)(next_ref s := c), next_ref := Suc (next_ref s)\<rparr>)"
    using apply_faction_tint_Inr [OF assms(1) blend_ok_unit [OF assms(2) zero]] same
    by (simp add: c_def)
  then show "\<exists>result s'.
      apply_faction_tint s img (c0, c1, c2) (Finite 0) = (Inr result, s') \<and>
      objs s' result = objs s img"
    by (simp add: c_def)
  define c' where "c' = c\<lparr>rows := map (map (tint_rgba (c0, c1, c2) (Finite 1))) (rows c)\<rparr>"
  define s' where "s' = s\<lparr>objs := (objs s)(next_ref s := c'), next_ref := Suc (next_ref s)\<rparr>"
  have run: "apply_faction_tint s img (c0, c1, c2) (Finite 1) = (Inr (next_ref s), s')"
    using apply_faction_tint_Inr [OF assms(1) blend_ok_unit [OF assms(2) one]]
    by (simp add: c_def c'_def s'_def)
  have px: "case pixel_at c x y of (r, g, b, a) \<Rightarrow>
          case pixel_at c' x y of (r', g', b', a') \<Rightarrow>
            a' = a \<and>
            (if 0 < uint a then (uint r', uint g', uint b') = (c0, c1, c2)
             else (r', g', b') = (r, g, b))"
    if "x < width c" "y < height c" for x y
  proof -
    obtain r g b a where p: "pixel_at c x y = (r, g, b, a)" by (cases "pixel_at c x y") auto
    have "pixel_at c' x y = tint_rgba (c0, c1, c2) (Finite 1) (r, g, b, a)"
      using pixel_at_map [OF wf that] p by (simp add: c'_def)
    then show ?thesis unfolding p
      using cb by (simp add: tint_rgba_one [OF assms(2)] uint_clip8)
  qed
  show "\<exists>result s'.
      apply_faction_tint s img (c0, c1, c2) (Finite 1) = (Inr result, s') \<and>
      width (objs s' result) = width (objs s img) \<and>
      height (objs s' result) = height (objs s img) \<and>
      (\<forall>x y. x < width (objs s img) \<and> y < height (objs s img) \<longrightarrow>
         (case pixel_at (objs s img) x y of (r, g, b, a) \<Rightarrow>
          case pixel_at (objs s' result) x y of (r', g', b', a') \<Rightarrow>
            a' = a \<and>
            (if 0 < uint a then (uint r', uint g', uint b') = (c0, c1, c2)
             else (r', g', b') = (r, g, b))))"
    using run px unfolding c_def [symmetric]
    by (intro exI [of _ "next_ref s"] exI [of _ s']) (simp add: s'_def c'_def)
qed

theorem tint_at_zero_and_one_witness:
  "wf_canvas (objs sample_store 0) \<and> rgb_ok (51, 102, 204) \<and>
   ((\<exists>result s'.
      apply_faction_tint sample_store 0 (51, 102, 204) (Finite 0) = (Inr result, s') \<and>
      objs s' result = objs sample_store 0) \<and>
    (\<exists>result s'.
      apply_faction_tint sample_store 0 (51, 102, 204) (Finite 1) = (Inr result, s') \<and>
      width (objs s' result) = width (objs sample_store 0) \<and>
      height (objs s' result) = height (objs sample_store 0) \<and>
      (\<forall>x y. x < width (objs sample_store 0) \<and> y < height (objs sample_store 0) \<longrightarrow>
         (case pixel_at (objs sample_store 0) x y of (r, g, b, a) \<Rightarrow>
          case pixel_at (objs s' result) x y of (r', g', b', a') \<Rightarrow>
            a' = a \<and>
            (if 0 < uint a then (uint r', uint g', uint b') = (51, 102, 204)
             else (r', g', b') = (r, g, b))))))"
proof -
  have h1: "wf_canvas (objs sample_store 0)" by (simp add: sample_store_def wf_sample_image)
  have h2: "rgb_ok (51, 102, 204)" by (simp add: rgb_ok_def)
  show ?thesis
    by (intro conjI [OF h1] conjI [OF h2]) (rule tint_at_zero_and_one [OF h1 h2])
qed

text \<open>
  Claim C4. Tinting is not idempotent: for the sample image and the colour
  \<^verbatim>\<open>CONTINUITY_BLUE\<close>, tinting at the literal 0.35 turns the opaque pixel
  (200, 200, 200, 255) into (147, 165, 201, 255), and tinting that result again at 0.35
  turns it into (113, 142, 202, 255): the image tinted twice differs from the image
  tinted once.
\<close>

theorem tint_not_idempotent:
  "\<exists>once s1 twice s2.
     apply_faction_tint sample_store 0 CONTINUITY_BLUE lit_0_35 = (Inr once, s1) \<and>
     apply_faction_tint s1 once CONTINUITY_BLUE lit_0_35 = (Inr twice, s2) \<and>
     pixel_at (objs s1 once) 0 0 = (147, 165, 201, 255) \<and>
     pixel_at (objs s2 twice) 0 0 = (113, 142, 202, 255) \<and>
     objs s2 twice \<noteq> objs s1 once"
  by (intro exI conjI, rule sample_once, rule sample_twice) (simp_all add: pixel_at_def)

text \<open>
  Claim C5. Whatever the image, the target colour and the intensity (a NaN and the
  infinities included), and whether the call returns or raises, \<^verbatim>\<open>apply_faction_tint\<close>
  leaves the input image object, and every other object that existed before the call, as
  it was; a returned reference is that of a new object, not the input's.
\<close>

theorem apply_faction_tint_keeps_input:
  assumes "apply_faction_tint s img faction_color intensity = (out, s')" and "img < next_ref s"
  shows "objs s' img = objs s img \<and>
    (\<forall>r. r < next_ref s \<longrightarrow> objs s' r = objs s r) \<and>
    (\<forall>result. out = Inr result \<longrightarrow> result = next_ref s \<and> result \<noteq> img)"
  using assms
  by (auto simp: apply_faction_tint_def image_copy_def split: prod.splits option.splits)

theorem apply_faction_tint_keeps_input_witness:
  "0 < next_ref sample_store \<and>
   objs (snd (apply_faction_tint sample_store 0 CONTINUITY_BLUE lit_0_35)) 0 = objs sample_store 0 \<and>
   fst (apply_faction_tint sample_store 0 CONTINUITY_BLUE lit_0_35) = Inr 1 \<and>
   objs (snd (apply_faction_tint sample_store 0 CONTINUITY_BLUE NaN)) 0 = objs sample_store 0"
proof -
  have n: "0 < next_ref sample_store" by (simp add: sample_store_def)
  have 1: "objs (snd (apply_faction_tint sample_store 0 CONTINUITY_BLUE lit_0_35)) 0 = objs sample_store 0"
    using apply_faction_tint_keeps_input [OF prod.collapse [symmetric] n] by simp
  have 2: "objs (snd (apply_faction_tint sample_store 0 CONTINUITY_BLUE NaN)) 0 = objs sample_store 0"
    using apply_faction_tint_keeps_input [OF prod.collapse [symmetric] n] by simp
  show ?thesis using n 1 2 by (simp add: sample_once)
qed

text \<open>
  Claim C9. For a pixel with channels in 0 to 255, a target colour with channels in 0 to
  255 and an intensity in \<open>[0, 1]\<close>, the blend raises nothing, and the tuple that line
  390 writes has each of R, G and B within 0 to 255 and the alpha it read: the rounding
  of the float operations never takes the truncated blend below 0 or above 255, and the
  8-bit store keeps the four values as written.
\<close>

theorem tinted_channels_in_range:
  assumes "0 \<le> r" and "r \<le> 255" and "0 \<le> g" and "g \<le> 255" and "0 \<le> b" and "b \<le> 255"
    and "0 \<le> a" and "a \<le> 255" and "rgb_ok (c0, c1, c2)" and "0 \<le> i" and "i \<le> 1"
  shows "\<exists>nr ng nb.
    blend_pixel (c0, c1, c2) (Finite i) (r, g, b, a) = Inr (nr, ng, nb, a) \<and>
    0 \<le> nr \<and> nr \<le> 255 \<and> 0 \<le> ng \<and> ng \<le> 255 \<and> 0 \<le> nb \<and> nb \<le> 255 \<and>
    (uint (clip8 nr), uint (clip8 ng), uint (clip8 nb), uint (clip8 a)) = (nr, ng, nb, a)"
proof -
  have c: "0 \<le> c0" "c0 \<le> 255" "0 \<le> c1" "c1 \<le> 255" "0 \<le> c2" "c2 \<le> 255"
    using assms(9) by (simp_all add: rgb_ok_def)
  obtain nr where nr: "blend_channel r c0 (Finite i) = Inr nr" "0 \<le> nr" "nr \<le> 255"
    using blend_channel_range [OF assms(1,2) c(1,2) assms(10,11)] by blast
  obtain ng where ng: "blend_channel g c1 (Finite i) = Inr ng" "0 \<le> ng" "ng \<le> 255"
    using blend_channel_range [OF assms(3,4) c(3,4) assms(10,11)] by blast
  obtain nb where nb: "blend_channel b c2 (Finite i) = Inr nb" "0 \<le> nb" "nb \<le> 255"
    using blend_channel_range [OF assms(5,6) c(5,6) assms(10,11)] by blast
  show ?thesis
    using blend_pixel_Inr [OF nr(1) ng(1) nb(1), of a] nr ng nb assms(7,8)
    by (simp add: uint_clip8)
qed

theorem tinted_channels_in_range_witness:
  "rgb_ok (51, 102, 204) \<and>
   (\<exists>nr ng nb.
      blend_pixel (51, 102, 204) (Finite (3152519739159347 / 2 ^ 53)) (200, 200, 200, 255) = Inr (nr, ng, nb, 255) \<and>
      0 \<le> nr \<and> nr \<le> 255 \<and> 0 \<le> ng \<and> ng \<le> 255 \<and> 0 \<le> nb \<and> nb \<le> 255 \<and>
      (uint (clip8 nr), uint (clip8 ng), uint (clip8 nb), uint (clip8 255)) = (nr, ng, nb, 255))"
proof -
  have ok: "rgb_ok (51, 102, 204)" by (simp add: rgb_ok_def)
  show ?thesis
    using ok tinted_channels_in_range [of 200 200 200 255 51 102 204 "3152519739159347 / 2 ^ 53", OF _ _ _ _ _ _ _ _ ok]
    by simp
qed

text \<open>
  Claim C10. Without the third argument \<^verbatim>\<open>apply_faction_tint\<close> blends at the literal
  0.4 of line 377, not at the 0.35 the driver passes at line 434: on the sample image
  with \<^verbatim>\<open>CONTINUITY_BLUE\<close> the default call gives the opaque pixel (140, 160, 201, 255),
  the call at 0.35 gives (147, 165, 201, 255), and the default call equals the call at
  0.4.
\<close>

theorem default_intensity_is_0_4:
  "\<exists>dflt s1 drv s2.
     apply_faction_tint_default sample_store 0 CONTINUITY_BLUE = (Inr dflt, s1) \<and>
     apply_faction_tint sample_store 0 CONTINUITY_BLUE lit_0_35 = (Inr drv, s2) \<and>
     pixel_at (objs s1 dflt) 0 0 = (140, 160, 201, 255) \<and>
     pixel_at (objs s2 drv) 0 0 = (147, 165, 201, 255) \<and>
     objs s1 dflt \<noteq> objs s2 drv \<and>
     apply_faction_tint_default sample_store 0 CONTINUITY_BLUE =
       apply_faction_tint sample_store 0 CONTINUITY_BLUE lit_0_4"
proof (intro exI conjI)
  show "apply_faction_tint_default sample_store 0 CONTINUITY_BLUE =
      (Inr 1, \<lparr>objs = (\<lambda>_. sample_image)
               (1 := \<lparr>width = 2, height = 1, rows = [[(140, 160, 201, 255), (0, 0, 0, 0)]]\<rparr>),
             next_ref = 2\<rparr>)"
    by (simp add: apply_faction_tint_default_def sample_default)
  show "apply_faction_tint sample_store 0 CONTINUITY_BLUE lit_0_35 =
    (Inr 1, \<lparr>objs = (\<lambda>_. sample_image)
               (1 := \<lparr>width = 2, height = 1, rows = [[(147, 165, 201, 255), (0, 0, 0, 0)]]\<rparr>),
             next_ref = 2\<rparr>)"
    by (rule sample_once)
qed (simp_all add: pixel_at_def apply_faction_tint_default_def)

section \<open>The claims about the generators\<close>

text \<open>
  Claim C2. Called with a size that is not negative, every generator returns an image
  of exactly the declared dimensions, whatever the drawing library paints, as long as its
  primitives keep the size of the image they draw on: size by size for the ten
  square generators (the resource node generator with either flag), and size wide by 60
  high for the terrain generator.
\<close>

theorem generators_declared_size:
  assumes "lib_keeps_shape L" and "0 \<le> sz"
  shows "(\<exists>c. create_infantry_sprite L sz = Inr c \<and> wf_canvas c \<and>
       width c = nat sz \<and> height c = nat sz) \<and>
    (\<exists>c. create_ranger_sprite L sz = Inr c \<and> wf_canvas c \<and>
       width c = nat sz \<and> height c = nat sz) \<and>
    (\<exists>c. create_harvester_sprite L sz = Inr c \<and> wf_canvas c \<and>
       width c = nat sz \<and> height c = nat sz) \<and>
    (\<exists>c. create_depot_sprite L sz = Inr c \<and> wf_canvas c \<and>
       width c = nat sz \<and> height c = nat sz) \<and>
    (\<exists>c. create_barracks_sprite L sz = Inr c \<and> wf_canvas c \<and>
       width c = nat sz \<and> height c = nat sz) \<and>
    (\<exists>c. create_supply_depot_sprite L sz = Inr c \<and> wf_canvas c \<and>
       width c = nat sz \<and> height c = nat sz) \<and>
    (\<exists>c. create_tech_lab_sprite L sz = Inr c \<and> wf_canvas c \<and>
       width c = nat sz \<and> height c = nat sz) \<and>
    (\<exists>c. create_turret_sprite L sz = Inr c \<and> wf_canvas c \<and>
       width c = nat sz \<and> height c = nat sz) \<and>
    (\<forall>permanent. \<exists>c. create_resource_node_sprite L sz permanent = Inr c \<and> wf_canvas c \<and>
       width c = nat sz \<and> height c = nat sz) \<and>
    (\<exists>c. create_terrain_sprite L sz = Inr c \<and> wf_canvas c \<and>
       width c = nat sz \<and> height c = 60)"
  using infantry_shape [OF assms] ranger_shape [OF assms] harvester_shape [OF assms]
    depot_shape [OF assms] barracks_shape [OF assms] supply_depot_shape [OF assms]
    tech_lab_shape [OF assms] turret_shape [OF assms] resource_node_shape [OF assms]
    terrain_shape [OF assms]
  by (intro conjI allI)

theorem generators_declared_size_witness:
  "lib_keeps_shape reference_lib \<and> (0::int) \<le> 32 \<and>
   ((\<exists>c. create_infantry_sprite reference_lib 32 = Inr c \<and> wf_canvas c \<and>
       width c = nat 32 \<and> height c = nat 32) \<and>
    (\<exists>c. create_ranger_sprite reference_lib 32 = Inr c \<and> wf_canvas c \<and>
       width c = nat 32 \<and> height c = nat 32) \<and>
    (\<exists>c. create_harvester_sprite reference_lib 32 = Inr c \<and> wf_canvas c \<and>
       width c = nat 32 \<and> height c = nat 32) \<and>
    (\<exists>c. create_depot_sprite reference_lib 32 = Inr c \<and> wf_canvas c \<and>
       width c = nat 32 \<and> height c = nat 32) \<and>
    (\<exists>c. create_barracks_sprite reference_lib 32 = Inr c \<and> wf_canvas c \<and>
       width c = nat 32 \<and> height c = nat 32) \<and>
    (\<exists>c. create_supply_depot_sprite reference_lib 32 = Inr c \<and> wf_canvas c \<and>
       width c = nat 32 \<and> height c = nat 32) \<and>
    (\<exists>c. create_tech_lab_sprite reference_lib 32 = Inr c \<and> wf_canvas c \<and>
       width c = nat 32 \<and> height c = nat 32) \<and>
    (\<exists>c. create_turret_sprite reference_lib 32 = Inr c \<and> wf_canvas c \<and>
       width c = nat 32 \<and> height c = nat 32) \<and>
    (\<forall>permanent. \<exists>c. create_resource_node_sprite reference_lib 32 permanent = Inr c \<and> wf_canvas c \<and>
       width c = nat 32 \<and> height c = nat 32) \<and>
    (\<exists>c. create_terrain_sprite reference_lib 32 = Inr c \<and> wf_canvas c \<and>
       width c = nat 32 \<and> height c = 60))"
proof -
  have h: "(0::int) \<le> 32" by simp
  show ?thesis
    by (intro conjI [OF reference_lib_keeps_shape] conjI [OF h])
      (rule generators_declared_size [OF reference_lib_keeps_shape h])
qed

text \<open>
  Claim C7. With a raster library that meets the requirements above,
  \<^verbatim>\<open>create_turret_sprite(24)\<close> returns a 24 by 24 image whose four corner pixels are
  fully transparent, and whose pixel (12, 14), which lies in the box of the turret head,
  is the opaque grey (120, 120, 120, 255).
\<close>

theorem turret_24_pixels:
  assumes "raster_ok L"
  shows "\<exists>c. create_turret_sprite L 24 = Inr c \<and> width c = 24 \<and> height c = 24 \<and>
    pixel_at c 0 0 = (0, 0, 0, 0) \<and> pixel_at c 23 0 = (0, 0, 0, 0) \<and>
    pixel_at c 0 23 = (0, 0, 0, 0) \<and> pixel_at c 23 23 = (0, 0, 0, 0) \<and>
    pixel_at c 12 14 = (120, 120, 120, 255) \<and> in_box (6, 8, 18, 20) 12 14"
proof -
  note ks = lib_keeps_shapeD [OF raster_okD(1) [OF assms]]
  define c0 where "c0 = \<lparr>width = 24, height = 24, rows = replicate 24 (replicate 24 transparent)\<rparr>"
  define e1 where "e1 = ellipse L (4, 16, 20, 22) (80, 80, 80, 255)"
  define r1 where "r1 = rectangle L (8, 12, 16, 18) (100, 100, 100, 255)"
  define e2 where "e2 = ellipse L (6, 8, 18, 20) (120, 120, 120, 255)"
  define r2 where "r2 = rectangle L (10, 2, 14, 12) (60, 60, 60, 255)"
  define e3 where "e3 = ellipse L (9, 0, 15, 5) (255, 200, 100, 200)"
  define c where "c = paint [e1, r1, e2, r2, e3] c0"
  have eq: "create_turret_sprite L 24 = Inr c"
    by (simp add: create_turret_sprite_def new_image_def and_then_def Let_def c_def c0_def
        e1_def r1_def e2_def r2_def e3_def)
  have wf0: "wf_canvas c0" "width c0 = 24" "height c0 = 24"
    using wf_new [of 24 24 transparent] by (simp_all add: c0_def)
  have keep: "\<forall>op \<in> set [e1, r1, e2, r2, e3]. keeps_shape op"
    by (simp add: e1_def r1_def e2_def r2_def e3_def ks)
  have dims: "width c = 24" "height c = 24"
    using paint_keeps_shape [OF keep, of c0] wf0 by (simp_all add: c_def)
  have corner: "pixel_at c x y = (0, 0, 0, 0)"
    if "(x = 0 \<or> x = 23) \<and> (y = 0 \<or> y = 23)" for x y
  proof -
    have "pixel_at (paint [e1, r1, e2, r2, e3] c0) x y = pixel_at c0 x y"
    proof (rule paint_outside)
      have "keeps_shape e1 \<and> (\<exists>b. paints_inside b e1 \<and> \<not> in_box b (int x) (int y))"
        unfolding e1_def by (rule ellipse_misses [OF assms]) (use that in \<open>auto simp: in_box_def\<close>)
      moreover have "keeps_shape r1 \<and> (\<exists>b. paints_inside b r1 \<and> \<not> in_box b (int x) (int y))"
        unfolding r1_def by (rule rectangle_misses [OF assms]) (use that in \<open>auto simp: in_box_def\<close>)
      moreover have "keeps_shape e2 \<and> (\<exists>b. paints_inside b e2 \<and> \<not> in_box b (int x) (int y))"
        unfolding e2_def by (rule ellipse_misses [OF assms]) (use that in \<open>auto simp: in_box_def\<close>)
      moreover have "keeps_shape r2 \<and> (\<exists>b. paints_inside b r2 \<and> \<not> in_box b (int x) (int y))"
        unfolding r2_def by (rule rectangle_misses [OF assms]) (use that in \<open>auto simp: in_box_def\<close>)
      moreover have "keeps_shape e3 \<and> (\<exists>b. paints_inside b e3 \<and> \<not> in_box b (int x) (int y))"
        unfolding e3_def by (rule ellipse_misses [OF assms]) (use that in \<open>auto simp: in_box_def\<close>)
      ultimately show "\<forall>op \<in> set [e1, r1, e2, r2, e3]. keeps_shape op \<and>
          (\<exists>b. paints_inside b op \<and> \<not> in_box b (int x) (int y))"
        by simp
    qed (use wf0 that in auto)
    moreover have "pixel_at c0 x y = transparent"
      unfolding c0_def using that by (intro new_canvas_pixel) auto
    ultimately show ?thesis by (simp add: c_def transparent_def)
  qed
  have head: "pixel_at c 12 14 = (120, 120, 120, 255)"
  proof -
    define c1 where "c1 = paint [e1, r1] c0"
    have k1: "\<forall>op \<in> set [e1, r1]. keeps_shape op" by (simp add: e1_def r1_def ks)
    have wf1: "wf_canvas c1" "width c1 = 24" "height c1 = 24"
      using paint_keeps_shape [OF k1, of c0] wf0 by (simp_all add: c1_def)
    have wf2: "wf_canvas (e2 c1)" "width (e2 c1) = 24" "height (e2 c1) = 24"
      using ks(2) [of "(6, 8, 18, 20)" "(120, 120, 120, 255)"] wf1
      by (simp_all add: keeps_shape_def e2_def)
    have split: "c = paint [r2, e3] (e2 c1)" by (simp add: c_def c1_def paint_def)
    have "pixel_at (paint [r2, e3] (e2 c1)) 12 14 = pixel_at (e2 c1) 12 14"
    proof (rule paint_outside)
      have "keeps_shape r2 \<and> (\<exists>b. paints_inside b r2 \<and> \<not> in_box b (int 12) (int 14))"
        unfolding r2_def by (rule rectangle_misses [OF assms]) (simp add: in_box_def)
      moreover have "keeps_shape e3 \<and> (\<exists>b. paints_inside b e3 \<and> \<not> in_box b (int 12) (int 14))"
        unfolding e3_def by (rule ellipse_misses [OF assms]) (simp add: in_box_def)
      ultimately show "\<forall>op \<in> set [r2, e3]. keeps_shape op \<and>
          (\<exists>b. paints_inside b op \<and> \<not> in_box b (int 12) (int 14))"
        by simp
    qed (use wf2 in simp_all)
    moreover have "pixel_at (e2 c1) 12 14 = (120, 120, 120, 255)"
      unfolding e2_def
      by (rule paints_centreD [OF raster_okD(6) [OF assms]]) (use wf1 in simp_all)
    ultimately show ?thesis by (simp add: split)
  qed
  show ?thesis
    using eq dims corner [of 0 0] corner [of 23 0] corner [of 0 23] corner [of 23 23] head
    by (simp add: in_box_def)
qed

theorem turret_24_pixels_witness:
  "raster_ok reference_lib \<and>
   (\<exists>c. create_turret_sprite reference_lib 24 = Inr c \<and> width c = 24 \<and> height c = 24 \<and>
    pixel_at c 0 0 = (0, 0, 0, 0) \<and> pixel_at c 23 0 = (0, 0, 0, 0) \<and>
    pixel_at c 0 23 = (0, 0, 0, 0) \<and> pixel_at c 23 23 = (0, 0, 0, 0) \<and>
    pixel_at c 12 14 = (120, 120, 120, 255) \<and> in_box (6, 8, 18, 20) 12 14)"
  by (intro conjI [OF reference_lib_ok]) (rule turret_24_pixels [OF reference_lib_ok])

text \<open>
  Claim C8. With a raster library that meets the requirements above, the two branches
  of \<^verbatim>\<open>create_resource_node_sprite\<close> at size 40 differ. With \<^verbatim>\<open>permanent\<close> true
  (three crystal polygons, then the glow ellipse) the pixel (20, 23) is the glow colour
  (100, 255, 150, 100), its alpha strictly between 0 and 255. With \<^verbatim>\<open>permanent\<close> false
  (the ore pile ellipses, then the two glints) the pixel (20, 18) is the glint colour
  (255, 240, 180, 255). The two images differ at the pixel (20, 18).
\<close>

theorem resource_node_branches:
  assumes "raster_ok L"
  shows "\<exists>p t.
    create_resource_node_sprite L 40 True = Inr p \<and>
    create_resource_node_sprite L 40 False = Inr t \<and>
    width p = 40 \<and> height p = 40 \<and> width t = 40 \<and> height t = 40 \<and>
    pixel_at p 20 23 = (100, 255, 150, 100) \<and>
    (case pixel_at p 20 23 of (r, g, b, a) \<Rightarrow> 0 < uint a \<and> uint a < 255) \<and>
    pixel_at t 20 18 = (255, 240, 180, 255) \<and>
    pixel_at p 20 18 \<noteq> pixel_at t 20 18 \<and>
    p \<noteq> t"
proof -
  note ks = lib_keeps_shapeD [OF raster_okD(1) [OF assms]]
  define c0 where "c0 = \<lparr>width = 40, height = 40, rows = replicate 40 (replicate 40 transparent)\<rparr>"
  have wf0: "wf_canvas c0" "width c0 = 40" "height c0 = 40"
    using wf_new [of 40 40 transparent] by (simp_all add: c0_def)
  have c0px: "pixel_at c0 x y = transparent" if "x < 40" "y < 40" for x y
    unfolding c0_def using that by (rule new_canvas_pixel)
  \<comment> \<open>the permanent node\<close>
  define crystals where "crystals =
    [polygon L [(20, 4), (30, 16), (28, 32), (12, 32), (10, 16)] (60, 200, 100, 255),
     polygon L [(6, 20), (14, 8), (16, 26)] (80, 220, 120, 255),
     polygon L [(34, 20), (26, 10), (24, 24)] (50, 180, 90, 255)]"
  define glow where "glow = ellipse L (14, 18, 26, 28) (100, 255, 150, 100)"
  define p where "p = paint (crystals @ [glow]) c0"
  have eqp: "create_resource_node_sprite L 40 True = Inr p"
    by (simp add: create_resource_node_sprite_def new_image_def and_then_def Let_def p_def c0_def
        crystals_def glow_def)
  have kc: "\<forall>op \<in> set crystals. keeps_shape op" by (simp add: crystals_def ks)
  have wfc: "wf_canvas (paint crystals c0)" "width (paint crystals c0) = 40"
      "height (paint crystals c0) = 40"
    using paint_keeps_shape [OF kc, of c0] wf0 by simp_all
  have p_split: "p = glow (paint crystals c0)" by (simp add: p_def paint_def)
  have kg: "keeps_shape glow" by (simp add: glow_def ks)
  have dimp: "width p = 40" "height p = 40"
    using kg wfc by (simp_all add: p_split keeps_shape_def)
  have glow_px: "pixel_at p 20 23 = (100, 255, 150, 100)"
    unfolding p_split glow_def
    by (rule paints_centreD [OF raster_okD(6) [OF assms]]) (use wfc in simp_all)
  define F :: "rgba set" where
    "F = {(60, 200, 100, 255), (80, 220, 120, 255), (50, 180, 90, 255), (100, 255, 150, 100)}"
  have "pixel_at (paint (crystals @ [glow]) c0) 20 18 = pixel_at c0 20 18 \<or>
      pixel_at (paint (crystals @ [glow]) c0) 20 18 \<in> F"
  proof (rule paint_fills)
    show "\<forall>op \<in> set (crystals @ [glow]). keeps_shape op \<and> (\<exists>f \<in> F. paints f op)"
      using raster_okD(4,7) [OF assms]
      by (simp add: crystals_def glow_def ks F_def)
  qed (use wf0 in simp_all)
  then have p18: "pixel_at p 20 18 = transparent \<or> pixel_at p 20 18 \<in> F"
    using c0px [of 20 18] by (simp add: p_def)
  \<comment> \<open>the temporary node\<close>
  define pile where "pile =
    ellipse L (4, 20, 36, 36) (180, 140, 40, 255) #
    map (\<lambda>i. ellipse L (8 + i mod 3 * 10 + i div 3 * 5, 13 + i mod 2 * 8,
                          8 + i mod 3 * 10 + i div 3 * 5 + (8 + i mod 3 * 2),
                          13 + i mod 2 * 8 + (8 + i mod 3 * 2)) (220, 180, 60, 255))
      (py_range 5)"
  define glint1 where "glint1 = ellipse L (18, 16, 22, 20) (255, 240, 180, 255)"
  define glint2 where "glint2 = ellipse L (26, 22, 29, 25) (255, 230, 160, 255)"
  define t where "t = paint (pile @ [glint1, glint2]) c0"
  have eqt: "create_resource_node_sprite L 40 False = Inr t"
    by (simp add: create_resource_node_sprite_def new_image_def and_then_def Let_def t_def c0_def
        pile_def glint1_def glint2_def)
  have kp: "\<forall>op \<in> set pile. keeps_shape op" by (auto simp: pile_def ks)
  have wfp: "wf_canvas (paint pile c0)" "width (paint pile c0) = 40" "height (paint pile c0) = 40"
    using paint_keeps_shape [OF kp, of c0] wf0 by simp_all
  have t_split: "t = paint [glint2] (glint1 (paint pile c0))" by (simp add: t_def paint_def)
  have wfg: "wf_canvas (glint1 (paint pile c0))" "width (glint1 (paint pile c0)) = 40"
      "height (glint1 (paint pile c0)) = 40"
    using ks(2) [of "(18, 16, 22, 20)" "(255, 240, 180, 255)"] wfp
    by (simp_all add: keeps_shape_def glint1_def)
  have dimt: "width t = 40" "height t = 40"
    using ks(2) [of "(26, 22, 29, 25)" "(255, 230, 160, 255)"] wfg
    by (simp_all add: t_split paint_def keeps_shape_def glint2_def)
  have "pixel_at (paint [glint2] (glint1 (paint pile c0))) 20 18 = pixel_at (glint1 (paint pile c0)) 20 18"
  proof (rule paint_outside)
    have "keeps_shape glint2 \<and> (\<exists>b. paints_inside b glint2 \<and> \<not> in_box b (int 20) (int 18))"
      unfolding glint2_def by (rule ellipse_misses [OF assms]) (simp add: in_box_def)
    then show "\<forall>op \<in> set [glint2]. keeps_shape op \<and>
        (\<exists>b. paints_inside b op \<and> \<not> in_box b (int 20) (int 18))"
      by simp
  qed (use wfg in simp_all)
  moreover have "pixel_at (glint1 (paint pile c0)) 20 18 = (255, 240, 180, 255)"
    unfolding glint1_def
    by (rule paints_centreD [OF raster_okD(6) [OF assms]]) (use wfp in simp_all)
  ultimately have glint_px: "pixel_at t 20 18 = (255, 240, 180, 255)" by (simp add: t_split)
  have differ: "pixel_at p 20 18 \<noteq> pixel_at t 20 18"
    using p18 glint_px by (auto simp: F_def transparent_def)
  then have "p \<noteq> t" by auto
  then show ?thesis
    using eqp eqt dimp dimt glow_px glint_px differ by simp
qed

theorem resource_node_branches_witness:
  "raster_ok reference_lib \<and>
   (\<exists>p t.
    create_resource_node_sprite reference_lib 40 True = Inr p \<and>
    create_resource_node_sprite reference_lib 40 False = Inr t \<and>
    width p = 40 \<and> height p = 40 \<and> width t = 40 \<and> height t = 40 \<and>
    pixel_at p 20 23 = (100, 255, 150, 100) \<and>
    (case pixel_at p 20 23 of (r, g, b, a) \<Rightarrow> 0 < uint a \<and> uint a < 255) \<and>
    pixel_at t 20 18 = (255, 240, 180, 255) \<and>
    pixel_at p 20 18 \<noteq> pixel_at t 20 18 \<and>
    p \<noteq> t)"
  by (intro conjI [OF reference_lib_ok]) (rule resource_node_branches [OF reference_lib_ok])

section \<open>The claim about the driver\<close>

text \<open>
  Claim C6, amended. With a raster library whose primitives keep the image size, a run
  of the driver raises nothing and writes exactly 27 files under distinct paths: the 11
  base sprites, and for each of the 2 factions the 8 unit and building sprites (3 unit
  and 5 building names), so 8 tinted files per faction and 16 tinted files in all. Every
  file holds a well-formed image of the dimensions declared for its sprite.
\<close>

theorem driver_files:
  assumes "lib_keeps_shape L"
  shows "\<exists>fs. main L out_dir = Inr fs \<and> all_wf fs \<and> distinct (map fst fs) \<and>
    length sprite_names = 11 \<and> length (unit_sprites @ building_sprites) = 8 \<and> length fs = 27 \<and>
    listing fs =
      map (\<lambda>name. (path_join out_dir (name @ ''.png''), declared_dims name)) sprite_names @
      map (\<lambda>name. (path_join (path_join out_dir ''continuity'') (name @ ''.png''), declared_dims name))
        (unit_sprites @ building_sprites) @
      map (\<lambda>name. (path_join (path_join out_dir ''collegium'') (name @ ''.png''), declared_dims name))
        (unit_sprites @ building_sprites)"
proof -
  obtain fs where fs: "main L out_dir = Inr fs" "all_wf fs"
    "listing fs =
      map (\<lambda>name. (path_join out_dir (name @ ''.png''), declared_dims name)) sprite_names @
      map (\<lambda>name. (path_join (path_join out_dir ''continuity'') (name @ ''.png''), declared_dims name))
        (unit_sprites @ building_sprites) @
      map (\<lambda>name. (path_join (path_join out_dir ''collegium'') (name @ ''.png''), declared_dims name))
        (unit_sprites @ building_sprites)"
    using main_run [OF assms] by blast
  have n: "length sprite_names = 11" "length (unit_sprites @ building_sprites) = 8"
    by (simp_all add: sprite_names_def unit_sprites_def building_sprites_def)
  have "length (listing fs) = 27" unfolding fs(3) using n by simp
  then have len: "length fs = 27" by (simp add: listing_def)
  have "map fst fs = map fst (listing fs)" by (simp add: map_fst_listing)
  also have "\<dots> =
     map (\<lambda>name. path_join out_dir (name @ ''.png'')) sprite_names @
     map (\<lambda>name. path_join (path_join out_dir ''continuity'') (name @ ''.png''))
       (unit_sprites @ building_sprites) @
     map (\<lambda>name. path_join (path_join out_dir ''collegium'') (name @ ''.png''))
       (unit_sprites @ building_sprites)"
    unfolding fs(3) by (simp add: comp_def)
  finally have "distinct (map fst fs)" by (simp only: driver_paths_distinct)
  then show ?thesis using fs n len by blast
qed

theorem driver_files_witness:
  "lib_keeps_shape reference_lib \<and>
   (\<exists>fs. main reference_lib ''sprites'' = Inr fs \<and> all_wf fs \<and> distinct (map fst fs) \<and>
    length sprite_names = 11 \<and> length (unit_sprites @ building_sprites) = 8 \<and> length fs = 27 \<and>
    listing fs =
      map (\<lambda>name. (path_join ''sprites'' (name @ ''.png''), declared_dims name)) sprite_names @
      map (\<lambda>name. (path_join (path_join ''sprites'' ''continuity'') (name @ ''.png''), declared_dims name))
        (unit_sprites @ building_sprites) @
      map (\<lambda>name. (path_join (path_join ''sprites'' ''collegium'') (name @ ''.png''), declared_dims name))
        (unit_sprites @ building_sprites))"
  by (intro conjI [OF reference_lib_keeps_shape]) (rule driver_files [OF reference_lib_keeps_shape])

text \<open>
  The claim as stated expects 16 tinted files per faction and 32 in all. A run with the
  reference rasteriser into the directory \<^verbatim>\<open>sprites\<close> leaves 8 files under each
  faction directory and 27 files in all.
\<close>

theorem driver_tinted_file_count:
  "files_under ''sprites/continuity'' (main reference_lib ''sprites'') = Inr 8 \<and>
   files_under ''sprites/collegium'' (main reference_lib ''sprites'') = Inr 8 \<and>
   files_under ''sprites'' (main reference_lib ''sprites'') = Inr 27"
proof -
  obtain fs where fs: "main reference_lib ''sprites'' = Inr fs"
    "listing fs =
      map (\<lambda>name. (path_join ''sprites'' (name @ ''.png''), declared_dims name)) sprite_names @
      map (\<lambda>name. (path_join (path_join ''sprites'' ''continuity'') (name @ ''.png''), declared_dims name))
        (unit_sprites @ building_sprites) @
      map (\<lambda>name. (path_join (path_join ''sprites'' ''collegium'') (name @ ''.png''), declared_dims name))
        (unit_sprites @ building_sprites)"
    using main_run [OF reference_lib_keeps_shape, of "''sprites''"] by blast
  have paths: "map fst (listing fs) =
    [''sprites/infantry.png'', ''sprites/ranger.png'', ''sprites/harvester.png'',
     ''sprites/depot.png'', ''sprites/barracks.png'', ''sprites/supply_depot.png'',
     ''sprites/tech_lab.png'', ''sprites/turret.png'', ''sprites/resource_temp.png'',
     ''sprites/resource_perm.png'', ''sprites/terrain.png'',
     ''sprites/continuity/infantry.png'', ''sprites/continuity/ranger.png'',
     ''sprites/continuity/harvester.png'', ''sprites/continuity/depot.png'',
     ''sprites/continuity/barracks.png'', ''sprites/continuity/supply_depot.png'',
     ''sprites/continuity/tech_lab.png'', ''sprites/continuity/turret.png'',
     ''sprites/collegium/infantry.png'', ''sprites/collegium/ranger.png'',
     ''sprites/collegium/harvester.png'', ''sprites/collegium/depot.png'',
     ''sprites/collegium/barracks.png'', ''sprites/collegium/supply_depot.png'',
     ''sprites/collegium/tech_lab.png'', ''sprites/collegium/turret.png'']"
    unfolding fs(2)
    by (simp add: path_join_def sprite_names_def unit_sprites_def building_sprites_def)
  have cnt: "length (filter (\<lambda>(path, c). under dir path) fs) =
      length (filter (under dir) (map fst (listing fs)))" for dir
    by (rule count_under_listing)
  have "files_under ''sprites/continuity'' (Inr fs) = Inr 8"
    unfolding files_under_def sum.case cnt paths by (simp add: under_def)
  moreover have "files_under ''sprites/collegium'' (Inr fs) = Inr 8"
    unfolding files_under_def sum.case cnt paths by (simp add: under_def)
  moreover have "files_under ''sprites'' (Inr fs) = Inr 27"
    unfolding files_under_def sum.case cnt paths by (simp add: under_def)
  ultimately show ?thesis by (simp only: fs(1))
qed

end
